theory Spec2Isabelle
  imports Complex_Main
begin

section \<open>Data model (types.ts)\<close>

text \<open>
  JavaScript numbers are modelled as mathematical reals (counters and clock readings as
  naturals): rounding, overflow to Infinity and NaN are outside this model; the position
  filter alone is given a second time, on numbers with their non-finite values. Optional
  fields (\<open>f?: T\<close>) are \<open>option\<close> values. Field names that Isabelle shares between
  records carry the record's name as a suffix.
\<close>

record GeoLocation =
  lat :: real
  lng :: real
  heading :: "real option"
  speed :: "real option"

record Area =
  id_Area :: string
  name_Area :: string
  assignedDay :: "string option"
  isArchived_Area :: "bool option"

record StopPoint =
  location_Stop :: GeoLocation
  areaName :: string
  stopNumber :: nat
  timestamp :: nat

record Shop =
  id_Shop :: string
  name_Shop :: string
  ownerName :: string
  phone :: string
  subArea :: "string option"
  photo :: "string option"
  location :: GeoLocation
  areaId :: string
  createdAt :: nat
  isArchived_Shop :: "bool option"

record SalesRoute =
  id_Route :: string
  date :: string
  day :: "string option"
  customAreaName :: "string option"
  areaId_Route :: string
  path :: "GeoLocation list"
  stops :: "StopPoint list"
  startTime :: nat
  endTime :: "nat option"
  isArchived_Route :: "bool option"

section \<open>Haversine distance (services/locationService: calculateDistance)\<close>

text \<open>\<open>Math.atan2 y x\<close> on reals.\<close>

definition atan2 :: "real \<Rightarrow> real \<Rightarrow> real" where
  "atan2 y x =
     (if 0 < x then arctan (y / x)
      else if x < 0 then (if 0 \<le> y then arctan (y / x) + pi else arctan (y / x) - pi)
      else if 0 < y then pi / 2
      else if y < 0 then - (pi / 2)
      else 0)"

definition calculateDistance :: "GeoLocation \<Rightarrow> GeoLocation \<Rightarrow> real" where
  "calculateDistance loc1 loc2 =
     (let R = 6371000;
          phi1 = (lat loc1 * pi) / 180;
          phi2 = (lat loc2 * pi) / 180;
          dphi = ((lat loc2 - lat loc1) * pi) / 180;
          dlam = ((lng loc2 - lng loc1) * pi) / 180;
          a = sin (dphi / 2) * sin (dphi / 2)
              + cos phi1 * cos phi2 * sin (dlam / 2) * sin (dlam / 2);
          c = 2 * atan2 (sqrt a) (sqrt (1 - a))
      in R * c)"

section \<open>Position filter (App.tsx: kalmanStateRef, applyKalmanFilter)\<close>

record KalmanState =
  lat_K :: real
  lng_K :: real
  variance :: real

text \<open>
  \<open>applyKalmanFilter\<close> mutates \<open>kalmanStateRef.current\<close> and returns the smoothed
  \<open>{lat, lng}\<close>; the model returns the new filter state together with that pair.
\<close>

definition applyKalmanFilter ::
  "real \<Rightarrow> real \<Rightarrow> real \<Rightarrow> KalmanState \<Rightarrow> KalmanState \<times> (real \<times> real)" where
  "applyKalmanFilter newLat newLng accuracy state =
     (if variance state < 0
      then (\<lparr>lat_K = newLat, lng_K = newLng, variance = accuracy * accuracy\<rparr>,
            (newLat, newLng))
      else
        (let q = 1 / 1000000;
             r = accuracy * accuracy;
             v1 = variance state + q;
             k = v1 / (v1 + r);
             lat' = lat_K state + k * (newLat - lat_K state);
             lng' = lng_K state + k * (newLng - lng_K state);
             v2 = (1 - k) * v1
         in (\<lparr>lat_K = lat', lng_K = lng', variance = v2\<rparr>, (lat', lng'))))"

text \<open>A run of filter updates (one per GPS fix), threading the filter state.\<close>

fun kalmanRun :: "(real \<times> real \<times> real) list \<Rightarrow> KalmanState \<Rightarrow> KalmanState" where
  "kalmanRun [] state = state"
| "kalmanRun ((mlat, mlng, macc) # ms) state =
     kalmanRun ms (fst (applyKalmanFilter mlat mlng macc state))"

text \<open>
  A filter state is settled for an accuracy when its variance is not below the fixed
  point of the variance update at that accuracy (\<open>q\<close> is the process noise).
\<close>

definition settled :: "real \<Rightarrow> KalmanState \<Rightarrow> bool" where
  "settled acc st \<longleftrightarrow>
     0 \<le> variance st
     \<and> (1 / 1000000) * (acc * acc) \<le> variance st * (variance st + 1 / 1000000)"

text \<open>
  The same function on JavaScript numbers with their non-finite values: a number is a
  real, \<open>Infinity\<close>, \<open>-Infinity\<close> or \<open>NaN\<close>. Arithmetic on reals is exact
  (rounding is left out), a result of magnitude \<open>2 ^ 1024\<close> or more is an infinity, and
  the non-finite cases follow IEEE 754 (\<open>Infinity - Infinity\<close>, \<open>0 * Infinity\<close>,
  \<open>Infinity / Infinity\<close> and \<open>0 / 0\<close> are \<open>NaN\<close>; every comparison with
  \<open>NaN\<close> is false).
\<close>

datatype jsnum = Num real | PosInf | NegInf | NaN

definition overflowed :: "real \<Rightarrow> jsnum" where
  "overflowed r = (if 2 ^ 1024 \<le> r then PosInf else if r \<le> - (2 ^ 1024) then NegInf else Num r)"

fun jsneg :: "jsnum \<Rightarrow> jsnum" where
  "jsneg (Num a) = Num (- a)"
| "jsneg PosInf = NegInf"
| "jsneg NegInf = PosInf"
| "jsneg NaN = NaN"

fun jsadd :: "jsnum \<Rightarrow> jsnum \<Rightarrow> jsnum" where
  "jsadd (Num a) (Num b) = overflowed (a + b)"
| "jsadd NaN y = NaN"
| "jsadd x NaN = NaN"
| "jsadd PosInf NegInf = NaN"
| "jsadd NegInf PosInf = NaN"
| "jsadd PosInf y = PosInf"
| "jsadd x PosInf = PosInf"
| "jsadd NegInf y = NegInf"
| "jsadd x NegInf = NegInf"

definition jssub :: "jsnum \<Rightarrow> jsnum \<Rightarrow> jsnum" where
  "jssub x y = jsadd x (jsneg y)"

definition signedInf :: "bool \<Rightarrow> jsnum" where
  "signedInf positive = (if positive then PosInf else NegInf)"

fun jsmul :: "jsnum \<Rightarrow> jsnum \<Rightarrow> jsnum" where
  "jsmul (Num a) (Num b) = overflowed (a * b)"
| "jsmul NaN y = NaN"
| "jsmul x NaN = NaN"
| "jsmul (Num a) PosInf = (if a = 0 then NaN else signedInf (0 < a))"
| "jsmul (Num a) NegInf = (if a = 0 then NaN else signedInf (a < 0))"
| "jsmul PosInf (Num b) = (if b = 0 then NaN else signedInf (0 < b))"
| "jsmul NegInf (Num b) = (if b = 0 then NaN else signedInf (b < 0))"
| "jsmul PosInf PosInf = PosInf"
| "jsmul NegInf NegInf = PosInf"
| "jsmul PosInf NegInf = NegInf"
| "jsmul NegInf PosInf = NegInf"

fun jsdiv :: "jsnum \<Rightarrow> jsnum \<Rightarrow> jsnum" where
  "jsdiv (Num a) (Num b) =
     (if b = 0 then (if a = 0 then NaN else signedInf (0 < a)) else overflowed (a / b))"
| "jsdiv NaN y = NaN"
| "jsdiv x NaN = NaN"
| "jsdiv (Num a) PosInf = Num 0"
| "jsdiv (Num a) NegInf = Num 0"
| "jsdiv PosInf (Num b) = signedInf (0 \<le> b)"
| "jsdiv NegInf (Num b) = signedInf (b < 0)"
| "jsdiv PosInf PosInf = NaN"
| "jsdiv PosInf NegInf = NaN"
| "jsdiv NegInf PosInf = NaN"
| "jsdiv NegInf NegInf = NaN"

fun jsless :: "jsnum \<Rightarrow> jsnum \<Rightarrow> bool" where
  "jsless (Num a) (Num b) = (a < b)"
| "jsless NaN y = False"
| "jsless x NaN = False"
| "jsless NegInf NegInf = False"
| "jsless NegInf y = True"
| "jsless x NegInf = False"
| "jsless PosInf y = False"
| "jsless x PosInf = True"

record KalmanStateJS =
  lat_J :: jsnum
  lng_J :: jsnum
  variance_J :: jsnum

definition applyKalmanFilterJS ::
  "jsnum \<Rightarrow> jsnum \<Rightarrow> jsnum \<Rightarrow> KalmanStateJS \<Rightarrow> KalmanStateJS \<times> (jsnum \<times> jsnum)" where
  "applyKalmanFilterJS newLat newLng acc state =
     (if jsless (variance_J state) (Num 0)
      then (\<lparr>lat_J = newLat, lng_J = newLng, variance_J = jsmul acc acc\<rparr>,
            (newLat, newLng))
      else
        (let q = Num (1 / 1000000);
             r = jsmul acc acc;
             v1 = jsadd (variance_J state) q;
             k = jsdiv v1 (jsadd v1 r);
             lat' = jsadd (lat_J state) (jsmul k (jssub newLat (lat_J state)));
             lng' = jsadd (lng_J state) (jsmul k (jssub newLng (lng_J state)));
             v2 = jsmul (jssub (Num 1) k) v1
         in (\<lparr>lat_J = lat', lng_J = lng', variance_J = v2\<rparr>, (lat', lng'))))"

section \<open>Application state (App.tsx: the hooks and refs of the tracking engine)\<close>

record AlertInfo =
  show_Alert :: bool
  shopName :: string
  ownerName_Alert :: string

record RouteSaveForm =
  day_Form :: string
  areaName_Form :: string

text \<open>\<open>pos.coords\<close> of a geolocation fix.\<close>

record Coords =
  latitude :: real
  longitude :: real
  accuracy :: real
  heading_Coords :: "real option"
  speed_Coords :: "real option"

text \<open>
  The state of the component that the tracking engine reads and writes. The refs
  \<open>shopsRef\<close>, \<open>areasRef\<close>, \<open>isTrackingRef\<close> and \<open>activeRouteRef\<close> are copies of
  \<open>activeShops\<close>, \<open>activeAreas\<close>, \<open>isTracking\<close> and \<open>activeRoute\<close> that an effect
  refreshes after every render; the model reads the state itself, that is, every
  callback runs after the render of the previous one (one update at a time).
\<close>

record AppState =
  shops :: "Shop list"
  areas :: "Area list"
  routes :: "SalesRoute list"
  detectionRange :: real
  nearbyRange :: real
  currentLocation :: "GeoLocation option"
  isTracking :: bool
  activeRoute :: "SalesRoute option"
  selectedAreaId :: string
  viewingRoute :: "SalesRoute option"
  kalmanStateRef :: KalmanState
  alertInfo :: AlertInfo
  isSavingRoute :: bool
  routeSaveForm :: RouteSaveForm
  alertedShopsRef :: "string set"
  lastStopCheckLocRef :: "GeoLocation option"
  staticTimeCounterRef :: nat

section \<open>Range settings (App.tsx: detectionRange, nearbyRange)\<close>








section \<open>Proximity (App.tsx: activeAreas, activeShops, shopsWithDistances, nearbyShops, atShop)\<close>

text \<open>\<open>!x.isArchived\<close> holds when the optional flag is absent or false.\<close>

definition activeAreas :: "Area list \<Rightarrow> Area list" where
  "activeAreas as = filter (\<lambda>a. isArchived_Area a \<noteq> Some True) as"

definition activeShops :: "Shop list \<Rightarrow> Area list \<Rightarrow> Shop list" where
  "activeShops ss actAreas =
     filter (\<lambda>s. isArchived_Shop s \<noteq> Some True
                 \<and> list_ex (\<lambda>a. id_Area a = areaId s) actAreas) ss"

text \<open>\<open>{...shop, distance}\<close> is the pair of the shop and its distance.\<close>

definition shopsWithDistances ::
  "Shop list \<Rightarrow> GeoLocation option \<Rightarrow> (Shop \<times> real) list" where
  "shopsWithDistances actShops cur =
     (case cur of None \<Rightarrow> []
      | Some loc \<Rightarrow> map (\<lambda>shop. (shop, calculateDistance loc (location shop))) actShops)"

text \<open>
  \<open>Array.prototype.sort\<close> with the comparator \<open>(a, b) => a.distance - b.distance\<close> is a
  stable sort by distance: \<open>sort_key snd\<close>.
\<close>

definition nearbyShops :: "(Shop \<times> real) list \<Rightarrow> real \<Rightarrow> (Shop \<times> real) list" where
  "nearbyShops swd nearbyRng = sort_key snd (filter (\<lambda>shop. snd shop \<le> nearbyRng) swd)"

definition atShop :: "(Shop \<times> real) list \<Rightarrow> real \<Rightarrow> (Shop \<times> real) option" where
  "atShop swd detectionRng =
     (let withinRange = filter (\<lambda>shop. snd shop \<le> detectionRng) swd
      in if length withinRange = 0 then None
         else Some (hd (sort_key snd withinRange)))"

text \<open>The three memoised values as the component computes them from its state.\<close>

definition shopsRef :: "AppState \<Rightarrow> Shop list" where
  "shopsRef s = activeShops (shops s) (activeAreas (areas s))"

definition areasRef :: "AppState \<Rightarrow> Area list" where
  "areasRef s = activeAreas (areas s)"

definition atShopOf :: "AppState \<Rightarrow> (Shop \<times> real) option" where
  "atShopOf s = atShop (shopsWithDistances (shopsRef s) (currentLocation s)) (detectionRange s)"

definition nearbyShopsOf :: "AppState \<Rightarrow> (Shop \<times> real) list" where
  "nearbyShopsOf s =
     nearbyShops (shopsWithDistances (shopsRef s) (currentLocation s)) (nearbyRange s)"

section \<open>Proximity alerts (App.tsx: the watchPosition callback, alertedShopsRef)\<close>

text \<open>The argument of \<open>setAlertInfo\<close> for a shop.\<close>

definition alertPayload :: "Shop \<Rightarrow> AlertInfo" where
  "alertPayload shop =
     \<lparr>show_Alert = True, shopName = name_Shop shop, ownerName_Alert = ownerName shop\<rparr>"

text \<open>
  The body of \<open>shopsRef.current.forEach\<close>. The state carried through the loop is the
  alerted set and the shops for which \<open>setAlertInfo\<close> was called so far, in order.
\<close>

definition alertStep ::
  "GeoLocation \<Rightarrow> Shop \<Rightarrow> string set \<times> Shop list \<Rightarrow> string set \<times> Shop list" where
  "alertStep newLoc shop st =
     (let alerted = fst st; fired = snd st;
          dist = calculateDistance newLoc (location shop)
      in if dist < 40
         then (if id_Shop shop \<notin> alerted
               then (insert (id_Shop shop) alerted, fired @ [shop])
               else (alerted, fired))
         else if dist > 100 then (alerted - {id_Shop shop}, fired)
         else (alerted, fired))"

definition proximityAlerts ::
  "GeoLocation \<Rightarrow> Shop list \<Rightarrow> string set \<Rightarrow> string set \<times> Shop list" where
  "proximityAlerts newLoc registry alerted = fold (alertStep newLoc) registry (alerted, [])"

text \<open>The alerts of a sequence of locations: one list of alerting shops per update.\<close>

fun alertTrace :: "Shop list \<Rightarrow> GeoLocation list \<Rightarrow> string set \<Rightarrow> Shop list list" where
  "alertTrace registry [] alerted = []"
| "alertTrace registry (l # ls) alerted =
     snd (proximityAlerts l registry alerted)
       # alertTrace registry ls (fst (proximityAlerts l registry alerted))"

section \<open>Route recording (App.tsx: the watchPosition callback, toggleTracking, confirmSaveRoute)\<close>

text \<open>Path sampling: \<open>displacement = lastPoint ? calculateDistance(newLoc, lastPoint) : 100\<close>.\<close>

definition samplePath :: "GeoLocation \<Rightarrow> SalesRoute \<Rightarrow> SalesRoute" where
  "samplePath newLoc route =
     (let displacement = (if path route = [] then 100
                          else calculateDistance newLoc (last (path route)))
      in if displacement \<ge> 3 then route\<lparr>path := path route @ [newLoc]\<rparr> else route)"

text \<open>
  The area name of a new stop: the shops sorted by distance, the first of them, and
  \<open>areasRef.current.find(a => a.id === near.areaId)?.name || 'Point'\<close>.
\<close>

definition stopAreaName :: "GeoLocation \<Rightarrow> Shop list \<Rightarrow> Area list \<Rightarrow> string" where
  "stopAreaName newLoc registry actAreas =
     (let shopsByD = sort_key snd (map (\<lambda>s. (s, calculateDistance newLoc (location s))) registry)
      in case shopsByD of
           [] \<Rightarrow> ''Field Point''
         | near # rest \<Rightarrow>
             if snd near < 100
             then (case find (\<lambda>a. id_Area a = areaId (fst near)) actAreas of
                     None \<Rightarrow> ''Point''
                   | Some a \<Rightarrow> if name_Area a = [] then ''Point'' else name_Area a)
             else ''Field Point'')"

definition appendStop :: "GeoLocation \<Rightarrow> string \<Rightarrow> nat \<Rightarrow> SalesRoute \<Rightarrow> SalesRoute" where
  "appendStop newLoc areaNm now prev =
     (let newStop = \<lparr>location_Stop = newLoc, areaName = areaNm,
                      stopNumber = length (stops prev) + 1, timestamp = now\<rparr>
      in prev\<lparr>stops := stops prev @ [newStop]\<rparr>)"

text \<open>
  The recording part of the callback, run when \<open>isTrackingRef.current && activeRouteRef.current\<close>:
  the route, the counter and the anchor before, and after.
\<close>

definition recordUpdate ::
  "GeoLocation \<Rightarrow> nat \<Rightarrow> Shop list \<Rightarrow> Area list
     \<Rightarrow> SalesRoute \<times> nat \<times> GeoLocation option \<Rightarrow> SalesRoute \<times> nat \<times> GeoLocation option" where
  "recordUpdate newLoc now registry actAreas st =
     (case st of (route, counter, anchor) \<Rightarrow>
        (let route1 = samplePath newLoc route
         in case anchor of
              None \<Rightarrow> (route1, counter, Some newLoc)
            | Some lastStopCheckLoc \<Rightarrow>
                if calculateDistance newLoc lastStopCheckLoc < 15
                then (if counter + 1 = 3
                      then (appendStop newLoc (stopAreaName newLoc registry actAreas) now route1,
                            counter + 1, anchor)
                      else (route1, counter + 1, anchor))
                else (route1, 0, Some newLoc)))"

text \<open>The smoothed location of a fix: \<open>applyKalmanFilter(.., pos.coords.accuracy || 10)\<close>.\<close>

definition accuracyOrDefault :: "real \<Rightarrow> real" where
  "accuracyOrDefault acc = (if acc = 0 then 10 else acc)"

definition smooth :: "Coords \<Rightarrow> KalmanState \<Rightarrow> KalmanState \<times> (real \<times> real)" where
  "smooth c kst =
     applyKalmanFilter (latitude c) (longitude c) (accuracyOrDefault (accuracy c)) kst"

definition newLocOf :: "Coords \<Rightarrow> AppState \<Rightarrow> GeoLocation" where
  "newLocOf c s =
     (let smoothed = snd (smooth c (kalmanStateRef s))
      in \<lparr>lat = fst smoothed, lng = snd smoothed,
          heading = heading_Coords c, speed = speed_Coords c\<rparr>)"

text \<open>The watchPosition success callback; \<open>now\<close> is what \<open>Date.now()\<close> returns.\<close>

definition watchCallback :: "Coords \<Rightarrow> nat \<Rightarrow> AppState \<Rightarrow> AppState" where
  "watchCallback c now s =
     (let newLoc = newLocOf c s;
          al = proximityAlerts newLoc (shopsRef s) (alertedShopsRef s);
          s1 = s\<lparr>kalmanStateRef := fst (smooth c (kalmanStateRef s)),
                 currentLocation := Some newLoc,
                 alertedShopsRef := fst al,
                 alertInfo := (if snd al = [] then alertInfo s
                               else alertPayload (last (snd al)))\<rparr>
      in case (if isTracking s then activeRoute s else None) of
           None \<Rightarrow> s1
         | Some route \<Rightarrow>
             (case recordUpdate newLoc now (shopsRef s) (areasRef s)
                     (route, staticTimeCounterRef s, lastStopCheckLocRef s) of
                (route', counter', anchor') \<Rightarrow>
                  s1\<lparr>activeRoute := Some route',
                      staticTimeCounterRef := counter',
                      lastStopCheckLocRef := anchor'\<rparr>))"

text \<open>A sequence of fixes, each with the clock reading of its callback.\<close>

fun watchRun :: "(Coords \<times> nat) list \<Rightarrow> AppState \<Rightarrow> AppState" where
  "watchRun [] s = s"
| "watchRun ((c, now) # fs) s = watchRun fs (watchCallback c now s)"

text \<open>
  \<open>toggleTracking\<close>; \<open>newId\<close>, \<open>today\<close> and \<open>now\<close> are what \<open>generateId()\<close>,
  \<open>new Date().toLocaleDateString()\<close> and \<open>Date.now()\<close> return.
\<close>

definition defaultStart :: GeoLocation where
  "defaultStart = \<lparr>lat = 238103 / 10000, lng = 904125 / 10000, heading = None, speed = None\<rparr>"

text \<open>\<open>const start = currentLocation || { lat: 23.8103, lng: 90.4125 }\<close>.\<close>

definition startLoc :: "AppState \<Rightarrow> GeoLocation" where
  "startLoc s = (case currentLocation s of Some l \<Rightarrow> l | None \<Rightarrow> defaultStart)"

definition toggleTracking :: "string \<Rightarrow> string \<Rightarrow> nat \<Rightarrow> AppState \<Rightarrow> AppState" where
  "toggleTracking newId today now s =
     (if \<not> isTracking s
      then
        (let start = startLoc s;
             newRoute = \<lparr>id_Route = newId, date = today, day = None, customAreaName = None,
                         areaId_Route = (if selectedAreaId s \<noteq> ''all'' then selectedAreaId s
                                         else ''General''),
                         path = [start], stops = [], startTime = now, endTime = None,
                         isArchived_Route = Some False\<rparr>
         in s\<lparr>kalmanStateRef := \<lparr>lat_K = lat start, lng_K = lng start, variance = - 1\<rparr>,
               activeRoute := Some newRoute,
               viewingRoute := None,
               isTracking := True,
               staticTimeCounterRef := 0,
               lastStopCheckLocRef := Some start\<rparr>)
      else s\<lparr>isSavingRoute := True,
             routeSaveForm := \<lparr>day_Form = [], areaName_Form = []\<rparr>,
             isTracking := False\<rparr>)"

text \<open>The two inputs of the save form.\<close>

definition setRouteSaveForm :: "string \<Rightarrow> string \<Rightarrow> AppState \<Rightarrow> AppState" where
  "setRouteSaveForm dayLabel areaLabel s =
     s\<lparr>routeSaveForm := \<lparr>day_Form = dayLabel, areaName_Form = areaLabel\<rparr>\<rparr>"

text \<open>
  \<open>confirmSaveRoute\<close>; \<open>now\<close> and \<open>today\<close> are what \<open>Date.now()\<close> and
  \<open>new Date().toLocaleDateString('en-GB', ..)\<close> return.
\<close>

definition confirmSaveRoute :: "nat \<Rightarrow> string \<Rightarrow> AppState \<Rightarrow> AppState" where
  "confirmSaveRoute now today s =
     (case activeRoute s of
        None \<Rightarrow> s
      | Some r \<Rightarrow>
          (let finalRoute = r\<lparr>day := Some (day_Form (routeSaveForm s)),
                              customAreaName := Some (areaName_Form (routeSaveForm s)),
                              endTime := Some now,
                              date := today,
                              isArchived_Route := Some False\<rparr>
           in s\<lparr>routes := finalRoute # routes s,
                 activeRoute := None,
                 isSavingRoute := False,
                 viewingRoute := None\<rparr>))"


section \<open>Events of the component\<close>





section \<open>Observations of a state\<close>

text \<open>The alerts of one callback: the shops for which it calls \<open>setAlertInfo\<close>.\<close>

definition enterAlerts :: "Coords \<Rightarrow> AppState \<Rightarrow> Shop list" where
  "enterAlerts c s = snd (proximityAlerts (newLocOf c s) (shopsRef s) (alertedShopsRef s))"

definition recording :: "AppState \<Rightarrow> bool" where
  "recording s \<longleftrightarrow> isTracking s \<and> activeRoute s \<noteq> None"

definition pathOf :: "AppState \<Rightarrow> GeoLocation list" where
  "pathOf s = (case activeRoute s of None \<Rightarrow> [] | Some r \<Rightarrow> path r)"

definition stopsOf :: "AppState \<Rightarrow> StopPoint list" where
  "stopsOf s = (case activeRoute s of None \<Rightarrow> [] | Some r \<Rightarrow> stops r)"

text \<open>
  The nearest shop of a registry as the specification words it: a shop of the registry
  such that no shop is nearer and every shop before it is strictly farther.
\<close>

definition nearestShop :: "GeoLocation \<Rightarrow> Shop list \<Rightarrow> Shop \<Rightarrow> bool" where
  "nearestShop l registry x \<longleftrightarrow>
     list_ex (\<lambda>i. registry ! i = x
        \<and> list_all (\<lambda>j. calculateDistance l (location x)
                           \<le> calculateDistance l (location (registry ! j)))
             [0..<length registry]
        \<and> list_all (\<lambda>j. calculateDistance l (location x)
                           < calculateDistance l (location (registry ! j)))
             [0..<i])
       [0..<length registry]"

text \<open>Every fix of a run is smoothed to less than 3m from the last point of the path.\<close>

fun allJitter :: "(Coords \<times> nat) list \<Rightarrow> AppState \<Rightarrow> bool" where
  "allJitter [] s = True"
| "allJitter ((c, now) # fs) s =
     (calculateDistance (newLocOf c s) (last (pathOf s)) < 3
      \<and> allJitter fs (watchCallback c now s))"

text \<open>Every fix of a run is smoothed to less than 15m from the dwell anchor.\<close>

fun allDwell :: "(Coords \<times> nat) list \<Rightarrow> AppState \<Rightarrow> bool" where
  "allDwell [] s = True"
| "allDwell ((c, now) # fs) s =
     ((case lastStopCheckLocRef s of
         None \<Rightarrow> False
       | Some anchor \<Rightarrow> calculateDistance (newLocOf c s) anchor < 15)
      \<and> allDwell fs (watchCallback c now s))"

section \<open>Example data\<close>

definition eastOf :: "real \<Rightarrow> GeoLocation" where
  "eastOf degrees = \<lparr>lat = 0, lng = degrees, heading = None, speed = None\<rparr>"

definition fixAt :: "real \<Rightarrow> real \<Rightarrow> Coords" where
  "fixAt degrees acc =
     \<lparr>latitude = 0, longitude = degrees, accuracy = acc,
      heading_Coords = None, speed_Coords = None\<rparr>"

definition areaNorth :: Area where
  "areaNorth = \<lparr>id_Area = ''a1'', name_Area = ''Uttara'', assignedDay = None,
                 isArchived_Area = None\<rparr>"

definition areaUnnamed :: Area where
  "areaUnnamed = \<lparr>id_Area = ''a2'', name_Area = [], assignedDay = None,
                   isArchived_Area = Some False\<rparr>"

definition areaClosed :: Area where
  "areaClosed = \<lparr>id_Area = ''a3'', name_Area = ''Banani'', assignedDay = None,
                  isArchived_Area = Some True\<rparr>"

definition shopAt :: "string \<Rightarrow> string \<Rightarrow> string \<Rightarrow> real \<Rightarrow> bool option \<Rightarrow> Shop" where
  "shopAt sid nm aid degrees archived =
     \<lparr>id_Shop = sid, name_Shop = nm, ownerName = ''Karim'', phone = ''01700'',
      subArea = None, photo = None, location = eastOf degrees, areaId = aid,
      createdAt = 0, isArchived_Shop = archived\<rparr>"

definition shopAlpha :: Shop where
  "shopAlpha = shopAt ''s1'' ''Alpha Store'' ''a1'' 0 None"

text \<open>
  Four shops east of the origin on the equator: within a metre, two at the origin itself,
  and one more than a hundred metres away.
\<close>

definition shopClose :: Shop where
  "shopClose = shopAt ''s8'' ''Near Store'' ''a1'' (5 / 1000000) None"

definition shopHere :: Shop where
  "shopHere = shopAt ''s2'' ''Beta Store'' ''a1'' 0 None"

definition shopTwin :: Shop where
  "shopTwin = shopAt ''s3'' ''Gamma Store'' ''a1'' 0 (Some False)"

definition shopFar :: Shop where
  "shopFar = shopAt ''s4'' ''Delta Store'' ''a1'' (2 / 1000) None"

definition shopArchived :: Shop where
  "shopArchived = shopAt ''s5'' ''Old Store'' ''a1'' 0 (Some True)"

definition shopOrphan :: Shop where
  "shopOrphan = shopAt ''s6'' ''Closed Area Store'' ''a3'' 0 None"

definition exampleRegistry :: "Shop list" where
  "exampleRegistry = [shopClose, shopHere, shopTwin, shopFar]"

definition idleState :: AppState where
  "idleState =
     \<lparr>shops = [shopAlpha], areas = [areaNorth], routes = [],
      detectionRange = 1, nearbyRange = 20, currentLocation = Some (eastOf 0),
      isTracking = False, activeRoute = None, selectedAreaId = ''all'', viewingRoute = None,
      kalmanStateRef = \<lparr>lat_K = 0, lng_K = 0, variance = - 1\<rparr>,
      alertInfo = \<lparr>show_Alert = False, shopName = [], ownerName_Alert = []\<rparr>,
      isSavingRoute = False, routeSaveForm = \<lparr>day_Form = [], areaName_Form = []\<rparr>,
      alertedShopsRef = {}, lastStopCheckLocRef = None, staticTimeCounterRef = 0\<rparr>"


definition shopCorner :: Shop where
  "shopCorner = shopAt ''s7'' ''Corner Store'' ''a2'' 0 None"

definition unnamedState :: AppState where
  "unnamedState = idleState\<lparr>shops := [shopCorner], areas := [areaUnnamed]\<rparr>"

text \<open>Fixes at the origin with accuracy 5, at the given clock readings.\<close>

definition restFixes :: "nat list \<Rightarrow> (Coords \<times> nat) list" where
  "restFixes ts = map (\<lambda>t. (fixAt 0 5, t)) ts"

text \<open>A recording state at rest at the origin: anchor and filter estimate are the origin.\<close>

definition atRest :: "AppState \<Rightarrow> bool" where
  "atRest s \<longleftrightarrow>
     isTracking s \<and> activeRoute s \<noteq> None \<and> lastStopCheckLocRef s = Some (eastOf 0)
     \<and> lat_K (kalmanStateRef s) = 0 \<and> lng_K (kalmanStateRef s) = 0"

definition mixedState :: AppState where
  "mixedState = idleState\<lparr>shops := [shopArchived, shopOrphan, shopHere],
                           areas := [areaNorth, areaClosed]\<rparr>"

section \<open>Distances: evaluation lemmas\<close>

lemma calculateDistance_same:
  "lat a = lat b \<Longrightarrow> lng a = lng b \<Longrightarrow> calculateDistance a b = 0"
  by (simp add: calculateDistance_def atan2_def)

lemma calculateDistance_equator:
  assumes "lat a = 0" "lat b = 0" "0 \<le> lng b - lng a" "lng b - lng a < 180"
  shows "calculateDistance a b = 6371000 * ((lng b - lng a) * pi / 180)"
proof -
  define t where "t = ((lng b - lng a) * pi / 180) / 2"
  have t0: "0 \<le> t" using assms by (simp add: t_def)
  have "(lng b - lng a) * pi < 180 * pi" using assms(4) pi_gt_zero by simp
  then have t1: "t < pi / 2" by (simp add: t_def)
  have s0: "0 \<le> sin t" using t0 t1 by (intro sin_ge_zero) auto
  have c0: "0 < cos t" using t0 t1 by (intro cos_gt_zero_pi) auto
  have sq: "sqrt (sin t * sin t) = sin t" using s0 by simp
  have "1 - sin t * sin t = cos t * cos t"
    using sin_cos_squared_add[of t] by (simp add: power2_eq_square algebra_simps)
  then have cq: "sqrt (1 - sin t * sin t) = cos t" using c0 by simp
  have "atan2 (sin t) (cos t) = arctan (tan t)" using c0 by (simp add: atan2_def tan_def)
  also have "\<dots> = t" using t0 t1 by (intro arctan_tan) auto
  finally have at: "atan2 (sin t) (cos t) = t" .
  have "calculateDistance a b = 6371000 * (2 * atan2 (sqrt (sin t * sin t)) (sqrt (1 - sin t * sin t)))"
    using assms(1,2) by (simp add: calculateDistance_def Let_def t_def)
  also have "\<dots> = 6371000 * (2 * t)" by (simp only: sq cq at)
  finally show ?thesis by (simp add: t_def)
qed


lemma calculateDistance_commute: "calculateDistance a b = calculateDistance b a"
proof -
  have 1: "sin ((lat b - lat a) * pi / 180 / 2) = - sin ((lat a - lat b) * pi / 180 / 2)"
    by (simp add: sin_minus[symmetric] algebra_simps diff_divide_distrib del: sin_minus)
  have 2: "sin ((lng b - lng a) * pi / 180 / 2) = - sin ((lng a - lng b) * pi / 180 / 2)"
    by (simp add: sin_minus[symmetric] algebra_simps diff_divide_distrib del: sin_minus)
  show ?thesis
    unfolding calculateDistance_def Let_def 1 2 by (simp add: mult.commute)
qed

lemma calculateDistance_on_equator:
  assumes "lat a = 0" "lat b = 0" "\<bar>lng b - lng a\<bar> < 180"
  shows "calculateDistance a b = 6371000 * (\<bar>lng b - lng a\<bar> * pi / 180)"
proof (cases "lng a \<le> lng b")
  case True
  then show ?thesis
    using assms calculateDistance_equator[of a b] by simp
next
  case False
  then have "calculateDistance b a = 6371000 * ((lng a - lng b) * pi / 180)"
    using assms calculateDistance_equator[of b a] by simp
  moreover have "\<bar>lng b - lng a\<bar> = lng a - lng b" using False by simp
  ultimately show ?thesis
    by (simp only: calculateDistance_commute[of a b])
qed

lemma calculateDistance_east:
  "\<bar>y - x\<bar> < 180 \<Longrightarrow>
   calculateDistance (eastOf x) (eastOf y) = 6371000 * (\<bar>y - x\<bar> * pi / 180)"
  using calculateDistance_on_equator[of "eastOf x" "eastOf y"] by (simp add: eastOf_def)

lemma shopAt_location: "location (shopAt sid nm aid x ar) = eastOf x"
  by (simp add: shopAt_def)

section \<open>Stable sorting: the head of a sorted selection\<close>

lemma hd_insort_key:
  "hd (insort_key f x ys) = (if ys = [] \<or> f x \<le> f (hd ys) then x else hd ys)"
  by (cases ys) auto

lemma sort_key_eq_Nil: "sort_key f xs = [] \<longleftrightarrow> xs = []"
  by (metis length_sort list.size(3) length_0_conv)

lemma hd_sort_filter_first_min:
  "filter P xs \<noteq> [] \<Longrightarrow>
   \<exists>i<length xs. xs ! i = hd (sort_key f (filter P xs)) \<and> P (xs ! i)
      \<and> (\<forall>j<length xs. P (xs ! j) \<longrightarrow> f (xs ! i) \<le> f (xs ! j))
      \<and> (\<forall>j<i. P (xs ! j) \<longrightarrow> f (xs ! i) < f (xs ! j))"
proof (induction xs)
  case Nil
  then show ?case by simp
next
  case (Cons x xs)
  show ?case
  proof (cases "filter P xs = []")
    case True
    with Cons.prems have px: "P x" by (auto split: if_splits)
    have none: "\<not> P (xs ! j)" if "j < length xs" for j
      using True that by (metis filter_empty_conv nth_mem)
    have "\<forall>j<length (x # xs). P ((x # xs) ! j) \<longrightarrow> f x \<le> f ((x # xs) ! j)"
    proof (intro allI impI)
      fix j assume "j < length (x # xs)" "P ((x # xs) ! j)"
      then show "f x \<le> f ((x # xs) ! j)" using none by (cases j) auto
    qed
    then show ?thesis using px True by (intro exI[of _ 0]) simp
  next
    case False
    from Cons.IH[OF False] obtain i where i: "i < length xs"
      and hi: "xs ! i = hd (sort_key f (filter P xs))" and pi: "P (xs ! i)"
      and mn: "\<forall>j<length xs. P (xs ! j) \<longrightarrow> f (xs ! i) \<le> f (xs ! j)"
      and fs: "\<forall>j<i. P (xs ! j) \<longrightarrow> f (xs ! i) < f (xs ! j)" by blast
    show ?thesis
    proof (cases "P x \<and> f x \<le> f (xs ! i)")
      case True
      then have h: "hd (sort_key f (filter P (x # xs))) = x"
        using hi False by (simp add: hd_insort_key sort_key_eq_Nil)
      have "\<forall>j<length (x # xs). P ((x # xs) ! j) \<longrightarrow> f x \<le> f ((x # xs) ! j)"
      proof (intro allI impI)
        fix j assume j: "j < length (x # xs)" "P ((x # xs) ! j)"
        show "f x \<le> f ((x # xs) ! j)"
        proof (cases j)
          case 0 then show ?thesis by simp
        next
          case (Suc k)
          with j mn have "f (xs ! i) \<le> f (xs ! k)" by auto
          with True Suc show ?thesis by (auto intro: order_trans)
        qed
      qed
      then show ?thesis using True h by (intro exI[of _ 0]) simp
    next
      case F2: False
      then have h: "hd (sort_key f (filter P (x # xs))) = xs ! i"
        using hi False by (auto simp add: hd_insort_key sort_key_eq_Nil)
      have a: "\<forall>j<length (x # xs). P ((x # xs) ! j) \<longrightarrow> f (xs ! i) \<le> f ((x # xs) ! j)"
      proof (intro allI impI)
        fix j assume j: "j < length (x # xs)" "P ((x # xs) ! j)"
        show "f (xs ! i) \<le> f ((x # xs) ! j)"
        proof (cases j)
          case 0 then show ?thesis using F2 j by auto
        next
          case (Suc k)
          with j mn show ?thesis by auto
        qed
      qed
      have b: "\<forall>j<Suc i. P ((x # xs) ! j) \<longrightarrow> f (xs ! i) < f ((x # xs) ! j)"
      proof (intro allI impI)
        fix j assume j: "j < Suc i" "P ((x # xs) ! j)"
        show "f (xs ! i) < f ((x # xs) ! j)"
        proof (cases j)
          case 0 then show ?thesis using F2 j by auto
        next
          case (Suc k)
          with j fs show ?thesis by auto
        qed
      qed
      show ?thesis using i h pi a b by (intro exI[of _ "Suc i"]) simp
    qed
  qed
qed

section \<open>Position filter: properties\<close>

lemma fixAt_simps:
  "latitude (fixAt x acc) = 0" "longitude (fixAt x acc) = x" "accuracy (fixAt x acc) = acc"
  "heading_Coords (fixAt x acc) = None" "speed_Coords (fixAt x acc) = None"
  by (simp_all add: fixAt_def)

lemma kalman_denominator_pos:
  "\<not> variance st < 0 \<Longrightarrow> 0 < (variance st + 1 / 1000000) + acc * acc"
proof -
  assume "\<not> variance st < 0"
  moreover have "0 \<le> acc * acc" by simp
  ultimately show ?thesis by linarith
qed

lemma variance_step:
  assumes "\<not> variance st < 0"
  shows "variance (fst (applyKalmanFilter a b acc st)) =
         (variance st + 1 / 1000000) * (acc * acc) / (variance st + 1 / 1000000 + acc * acc)"
proof -
  let ?v1 = "variance st + 1 / 1000000"
  let ?r = "acc * acc"
  have pos: "0 < ?v1 + ?r" using assms kalman_denominator_pos by blast
  have "(1 - ?v1 / (?v1 + ?r)) * ?v1 = ?v1 * ?r / (?v1 + ?r)"
    using pos by (simp add: field_simps)
  then show ?thesis using assms by (simp add: applyKalmanFilter_def Let_def)
qed

lemma settled_step_le:
  assumes "settled acc st"
  shows "variance (fst (applyKalmanFilter a b acc st)) \<le> variance st"
proof -
  define v where "v = variance st"
  define r where "r = acc * acc"
  define q where "q = (1 / 1000000 :: real)"
  have v0: "0 \<le> v" and inv: "q * r \<le> v * (v + q)"
    using assms by (simp_all add: settled_def v_def r_def q_def)
  have r0: "0 \<le> r" by (simp add: r_def)
  have q0: "0 < q" by (simp add: q_def)
  have pos: "0 < v + q + r" using v0 r0 q0 by linarith
  have "(v + q) * r \<le> v * (v + q + r)"
    using inv by (simp add: algebra_simps)
  then have "(v + q) * r / (v + q + r) \<le> v"
    using pos by (simp add: pos_divide_le_eq)
  moreover have "variance (fst (applyKalmanFilter a b acc st)) = (v + q) * r / (v + q + r)"
    using variance_step[of st a b acc] v0 by (simp add: v_def r_def q_def)
  ultimately show ?thesis by (simp add: v_def)
qed

lemma settled_preserved:
  assumes "settled acc st"
  shows "settled acc (fst (applyKalmanFilter a b acc st))"
proof -
  define v where "v = variance st"
  define r where "r = acc * acc"
  define q where "q = (1 / 1000000 :: real)"
  define v1 where "v1 = v + q"
  define D where "D = v1 + r"
  define w where "w = v1 * r / D"
  have v0: "0 \<le> v" and inv: "q * r \<le> v * (v + q)"
    using assms by (simp_all add: settled_def v_def r_def q_def)
  have r0: "0 \<le> r" by (simp add: r_def)
  have q0: "0 < q" by (simp add: q_def)
  have v1pos: "0 < v1" using v0 q0 by (simp add: v1_def)
  have pos: "0 < D" using v1pos r0 by (simp add: D_def)
  have weq: "variance (fst (applyKalmanFilter a b acc st)) = w"
    using variance_step[of st a b acc] v0 by (simp add: v_def r_def q_def w_def D_def v1_def)
  have w0: "0 \<le> w" using v1pos r0 pos by (simp add: w_def)
  have key: "q * (v1 + r) \<le> v1 * v1"
  proof -
    have "v1 * v1 - q * v1 = v * (v + q)" by (simp add: v1_def algebra_simps)
    then show ?thesis using inv by (simp add: algebra_simps)
  qed
  have "q * r * (D * D) \<le> (v1 * r) * (v1 * r + q * D)"
  proof -
    have "(v1 * r) * (v1 * r + q * D) - q * r * (D * D) = r * r * (v1 * v1 - q * (v1 + r))"
      by (simp add: D_def algebra_simps)
    moreover have "0 \<le> r * r * (v1 * v1 - q * (v1 + r))"
      using key r0 by simp
    ultimately show ?thesis by linarith
  qed
  then have "q * r \<le> (v1 * r) * (v1 * r + q * D) / (D * D)"
    using pos by (simp add: pos_le_divide_eq)
  also have "(v1 * r) * (v1 * r + q * D) / (D * D) = w * (w + q)"
    using pos by (simp add: w_def field_simps)
  finally have "q * r \<le> w * (w + q)" .
  then show ?thesis using w0 weq by (simp add: settled_def q_def r_def)
qed

lemma settled_after_reset:
  assumes "variance st < 0"
  shows "settled acc (fst (applyKalmanFilter a b acc st))"
proof -
  have "0 \<le> (acc * acc) * (acc * acc)" by (rule zero_le_square)
  then have "(1 / 1000000) * (acc * acc) \<le> (acc * acc) * (acc * acc + 1 / 1000000)"
    by (simp add: algebra_simps)
  then show ?thesis using assms by (simp add: applyKalmanFilter_def settled_def)
qed

lemma settled_run:
  "settled acc st \<Longrightarrow> \<forall>m\<in>set ms. snd (snd m) = acc \<Longrightarrow> settled acc (kalmanRun ms st)"
proof (induction ms arbitrary: st)
  case Nil
  then show ?case by simp
next
  case (Cons m ms)
  obtain a b c where m: "m = (a, b, c)" by (cases m)
  with Cons.prems have "c = acc" by simp
  with Cons m show ?case by (simp add: settled_preserved)
qed

lemma first_update_raw:
  "variance st < 0 \<Longrightarrow>
   applyKalmanFilter mlat mlng acc st =
     (\<lparr>lat_K = mlat, lng_K = mlng, variance = acc * acc\<rparr>, (mlat, mlng))"
  by (simp add: applyKalmanFilter_def)

lemma toggleTracking_start_kalman:
  "\<not> isTracking s \<Longrightarrow> variance (kalmanStateRef (toggleTracking newId today now s)) = - 1"
  by (simp add: toggleTracking_def Let_def)

lemma watchCallback_kalman:
  "kalmanStateRef (watchCallback c now s) = fst (smooth c (kalmanStateRef s))"
  by (simp add: watchCallback_def Let_def split: option.split prod.split)

lemma watchCallback_currentLocation:
  "currentLocation (watchCallback c now s) = Some (newLocOf c s)"
  by (simp add: watchCallback_def Let_def split: option.split prod.split)

text \<open>
  C5. Starting a tracking session (toggleTracking while not tracking) sets the filter's
  variance to the sentinel -1, and the first update after it stores the measurement with
  variance accuracy * accuracy and returns the measurement unchanged; so the first
  callback of the session stores the raw fix and publishes it as the current location.
\<close>

theorem filter_reset_at_session_start:
  assumes "\<not> isTracking s"
  shows "variance (kalmanStateRef (toggleTracking newId today now s)) = - 1
       \<and> applyKalmanFilter mlat mlng acc (kalmanStateRef (toggleTracking newId today now s))
           = (\<lparr>lat_K = mlat, lng_K = mlng, variance = acc * acc\<rparr>, (mlat, mlng))
       \<and> kalmanStateRef (watchCallback c now' (toggleTracking newId today now s))
           = \<lparr>lat_K = latitude c, lng_K = longitude c,
              variance = accuracyOrDefault (accuracy c) * accuracyOrDefault (accuracy c)\<rparr>
       \<and> currentLocation (watchCallback c now' (toggleTracking newId today now s))
           = Some \<lparr>lat = latitude c, lng = longitude c,
                   heading = heading_Coords c, speed = speed_Coords c\<rparr>"
proof -
  let ?s' = "toggleTracking newId today now s"
  have v: "variance (kalmanStateRef ?s') = - 1"
    using assms by (rule toggleTracking_start_kalman)
  then have neg: "variance (kalmanStateRef ?s') < 0" by simp
  have sm: "smooth c (kalmanStateRef ?s') =
      (\<lparr>lat_K = latitude c, lng_K = longitude c,
        variance = accuracyOrDefault (accuracy c) * accuracyOrDefault (accuracy c)\<rparr>,
       (latitude c, longitude c))"
    unfolding smooth_def using neg by (rule first_update_raw)
  show ?thesis
    using v first_update_raw[OF neg, of mlat mlng acc] sm
    by (simp add: watchCallback_kalman watchCallback_currentLocation newLocOf_def)
qed

theorem filter_reset_at_session_start_witness:
  "\<not> isTracking idleState
   \<and> variance (kalmanStateRef (toggleTracking ''r1'' ''03/11/2026'' 1000 idleState)) = - 1
   \<and> applyKalmanFilter 1 2 5 (kalmanStateRef (toggleTracking ''r1'' ''03/11/2026'' 1000 idleState))
       = (\<lparr>lat_K = 1, lng_K = 2, variance = 25\<rparr>, (1, 2))
   \<and> currentLocation (watchCallback (fixAt 3 0) 2000
        (toggleTracking ''r1'' ''03/11/2026'' 1000 idleState))
       = Some \<lparr>lat = 0, lng = 3, heading = None, speed = None\<rparr>
   \<and> variance (kalmanStateRef (watchCallback (fixAt 3 0) 2000
        (toggleTracking ''r1'' ''03/11/2026'' 1000 idleState))) = 100"
proof -
  have idle: "\<not> isTracking idleState" by (simp add: idleState_def)
  show ?thesis
    using idle filter_reset_at_session_start[OF idle, of "''r1''" "''03/11/2026''" 1000 1 2 5
        "fixAt 3 0" 2000]
    by (simp add: fixAt_def accuracyOrDefault_def)
qed

text \<open>
  C7, as stated, fails: a filter initialised at accuracy 1/100 and then updated at the
  constant accuracy 10 has a larger variance after the update than before it.
\<close>

theorem variance_increase_counterexample:
  "variance (fst (applyKalmanFilter 0 0 (1 / 100) \<lparr>lat_K = 0, lng_K = 0, variance = - 1\<rparr>))
   < variance (fst (applyKalmanFilter 0 0 10
       (fst (applyKalmanFilter 0 0 (1 / 100) \<lparr>lat_K = 0, lng_K = 0, variance = - 1\<rparr>))))"
  by (simp add: applyKalmanFilter_def Let_def)

text \<open>
  C7, amended. After a reset, when the first update and every later update are made at
  one accuracy value, each update leaves the variance less than or equal to the variance
  before it: after the initialising update and any run of updates at that accuracy, one
  more update at it does not increase the variance.
\<close>

theorem variance_nonincreasing_same_accuracy:
  assumes "variance st < 0" and "\<forall>m\<in>set ms. snd (snd m) = acc"
  shows "variance (fst (applyKalmanFilter a b acc
                     (kalmanRun ms (fst (applyKalmanFilter a0 b0 acc st)))))
         \<le> variance (kalmanRun ms (fst (applyKalmanFilter a0 b0 acc st)))"
  using assms settled_after_reset settled_run settled_step_le by blast

theorem variance_nonincreasing_same_accuracy_witness:
  "variance \<lparr>lat_K = 0, lng_K = 0, variance = - 1\<rparr> < 0
   \<and> snd (snd (1 :: real, 1 :: real, 5 :: real)) = 5
   \<and> variance (fst (applyKalmanFilter 2 2 5
         (kalmanRun [(1, 1, 5)]
            (fst (applyKalmanFilter 0 0 5 \<lparr>lat_K = 0, lng_K = 0, variance = - 1\<rparr>)))))
      \<le> variance (kalmanRun [(1, 1, 5)]
            (fst (applyKalmanFilter 0 0 5 \<lparr>lat_K = 0, lng_K = 0, variance = - 1\<rparr>)))
   \<and> variance (kalmanRun [(1, 1, 5)]
            (fst (applyKalmanFilter 0 0 5 \<lparr>lat_K = 0, lng_K = 0, variance = - 1\<rparr>)))
      = 625000025 / 50000001"
  using variance_nonincreasing_same_accuracy
          [of "\<lparr>lat_K = 0, lng_K = 0, variance = - 1\<rparr>" "[(1, 1, 5)]" 5 2 2 0 0]
  by (simp add: applyKalmanFilter_def Let_def)

lemma kalman_update_lat:
  assumes "\<not> variance st < 0"
  shows "fst (snd (applyKalmanFilter mlat mlng acc st))
           = lat_K st + ((variance st + 1 / 1000000) / (variance st + 1 / 1000000 + acc * acc))
                          * (mlat - lat_K st)"
    and "snd (snd (applyKalmanFilter mlat mlng acc st))
           = lng_K st + ((variance st + 1 / 1000000) / (variance st + 1 / 1000000 + acc * acc))
                          * (mlng - lng_K st)"
  using assms by (simp_all add: applyKalmanFilter_def Let_def)

lemma gain_bounds:
  assumes "\<not> variance st < 0"
  shows "0 < (variance st + 1 / 1000000) / (variance st + 1 / 1000000 + acc * acc)"
    and "(variance st + 1 / 1000000) / (variance st + 1 / 1000000 + acc * acc) \<le> 1"
proof -
  have v1: "0 < variance st + 1 / 1000000" using assms by linarith
  have d: "0 < variance st + 1 / 1000000 + acc * acc" using assms by (rule kalman_denominator_pos)
  show "0 < (variance st + 1 / 1000000) / (variance st + 1 / 1000000 + acc * acc)"
    using v1 d by simp
  have "variance st + 1 / 1000000 \<le> variance st + 1 / 1000000 + acc * acc" by simp
  then show "(variance st + 1 / 1000000) / (variance st + 1 / 1000000 + acc * acc) \<le> 1"
    using d by (simp add: pos_divide_le_eq)
qed

lemma between_convex:
  fixes a m k :: real
  assumes "0 \<le> k" "k \<le> 1"
  shows "min a m \<le> a + k * (m - a)" "a + k * (m - a) \<le> max a m"
proof -
  have e2: "a + k * (m - a) = m + (1 - k) * (a - m)" by (simp add: algebra_simps)
  show "min a m \<le> a + k * (m - a)"
  proof (cases "a \<le> m")
    case True
    then have "0 \<le> k * (m - a)" using assms(1) by simp
    then show ?thesis using True by simp
  next
    case False
    then have "0 \<le> (1 - k) * (a - m)" using assms(2) by simp
    then have "m \<le> m + (1 - k) * (a - m)" by simp
    then have "m \<le> a + k * (m - a)" by (simp only: e2)
    then show ?thesis using False by simp
  qed
  show "a + k * (m - a) \<le> max a m"
  proof (cases "a \<le> m")
    case True
    then have "(1 - k) * (a - m) \<le> 0" using assms(2) by (simp add: mult_nonneg_nonpos)
    then have "m + (1 - k) * (a - m) \<le> m" by simp
    then have "a + k * (m - a) \<le> m" by (simp only: e2)
    then show ?thesis using True by simp
  next
    case False
    then have "k * (m - a) \<le> 0" using assms(1) by (simp add: mult_nonneg_nonpos)
    then show ?thesis using False by simp
  qed
qed

lemma weighted_mean:
  fixes x m v r :: real
  assumes "0 < v + r"
  shows "(x + (v / (v + r)) * (m - x)) * (v + r) = x * r + m * v"
proof -
  have "(x + (v / (v + r)) * (m - x)) * (v + r) = x * (v + r) + v * (m - x)"
    using assms by (simp add: field_simps)
  also have "\<dots> = x * r + m * v" by (simp add: algebra_simps)
  finally show ?thesis .
qed

lemma overflow_square: "jsmul (Num (10 ^ 200)) (Num (10 ^ 200)) = PosInf"
  by (simp add: overflowed_def)

lemma filter_overflow_gives_NaN:
  "fst (applyKalmanFilterJS (Num 0) (Num 0) (Num (10 ^ 200))
          \<lparr>lat_J = Num 0, lng_J = Num 0, variance_J = Num (- 1)\<rparr>)
     = \<lparr>lat_J = Num 0, lng_J = Num 0, variance_J = PosInf\<rparr>
   \<and> applyKalmanFilterJS (Num 1) (Num 2) (Num 10)
        \<lparr>lat_J = Num 0, lng_J = Num 0, variance_J = PosInf\<rparr>
     = (\<lparr>lat_J = NaN, lng_J = NaN, variance_J = NaN\<rparr>, (NaN, NaN))"
  by (simp add: applyKalmanFilterJS_def Let_def overflow_square overflowed_def jssub_def)

text \<open>
  C9, as stated, fails. An accuracy of 0 is not treated as a small positive floor: inside
  the filter it is used as it is (after a reset the variance stored is 0; on an
  initialised filter the gain is 1 and the variance becomes 0), and the callback replaces
  a reported 0 by 10, the same as a reported accuracy of 10. And the result is not finite
  for every input: on JavaScript numbers, after a first fix whose accuracy squared
  overflows the variance is \<open>Infinity\<close>, and the next update returns \<open>NaN\<close>.
\<close>

theorem accuracy_zero_not_floored_counterexample:
  "applyKalmanFilter 1 2 0 \<lparr>lat_K = 0, lng_K = 0, variance = - 1\<rparr>
     = (\<lparr>lat_K = 1, lng_K = 2, variance = 0\<rparr>, (1, 2))
   \<and> applyKalmanFilter 1 2 0 \<lparr>lat_K = 5, lng_K = 5, variance = 25\<rparr>
     = (\<lparr>lat_K = 1, lng_K = 2, variance = 0\<rparr>, (1, 2))
   \<and> smooth (fixAt 3 0) \<lparr>lat_K = 0, lng_K = 0, variance = - 1\<rparr>
     = smooth (fixAt 3 10) \<lparr>lat_K = 0, lng_K = 0, variance = - 1\<rparr>
   \<and> variance (fst (smooth (fixAt 3 0) \<lparr>lat_K = 0, lng_K = 0, variance = - 1\<rparr>)) = 100
   \<and> fst (applyKalmanFilterJS (Num 0) (Num 0) (Num (10 ^ 200))
            \<lparr>lat_J = Num 0, lng_J = Num 0, variance_J = Num (- 1)\<rparr>)
       = \<lparr>lat_J = Num 0, lng_J = Num 0, variance_J = PosInf\<rparr>
   \<and> applyKalmanFilterJS (Num 1) (Num 2) (Num 10)
        \<lparr>lat_J = Num 0, lng_J = Num 0, variance_J = PosInf\<rparr>
       = (\<lparr>lat_J = NaN, lng_J = NaN, variance_J = NaN\<rparr>, (NaN, NaN))"
  using filter_overflow_gives_NaN
  by (simp add: applyKalmanFilter_def Let_def smooth_def accuracyOrDefault_def fixAt_simps)

text \<open>
  C9, amended. On real arithmetic the filter's update never divides by zero: on an
  initialised filter the gain's denominator variance + q + accuracy * accuracy is
  positive for every accuracy, 0 included, because the process noise q is added to the
  variance before the division; the returned latitude and longitude are the weighted mean
  of the previous estimate and the measurement, so they lie between the two, and the new
  variance is at most variance + q. An accuracy of 0 is used as it is: on an initialised
  filter the update returns the measurement and sets the variance to 0. On an
  uninitialised filter the update returns the measurement and stores accuracy * accuracy.
  After every update the variance is non-negative. The callback passes 10 to the filter
  when the reported accuracy is 0.
\<close>

theorem filter_update_well_defined:
  "(\<not> variance st < 0 \<longrightarrow>
        0 < (variance st + 1 / 1000000) + acc * acc
      \<and> fst (snd (applyKalmanFilter mlat mlng acc st)) * ((variance st + 1 / 1000000) + acc * acc)
          = lat_K st * (acc * acc) + mlat * (variance st + 1 / 1000000)
      \<and> snd (snd (applyKalmanFilter mlat mlng acc st)) * ((variance st + 1 / 1000000) + acc * acc)
          = lng_K st * (acc * acc) + mlng * (variance st + 1 / 1000000)
      \<and> min (lat_K st) mlat \<le> fst (snd (applyKalmanFilter mlat mlng acc st))
      \<and> fst (snd (applyKalmanFilter mlat mlng acc st)) \<le> max (lat_K st) mlat
      \<and> min (lng_K st) mlng \<le> snd (snd (applyKalmanFilter mlat mlng acc st))
      \<and> snd (snd (applyKalmanFilter mlat mlng acc st)) \<le> max (lng_K st) mlng
      \<and> variance (fst (applyKalmanFilter mlat mlng acc st)) \<le> variance st + 1 / 1000000
      \<and> applyKalmanFilter mlat mlng 0 st
          = (\<lparr>lat_K = mlat, lng_K = mlng, variance = 0\<rparr>, (mlat, mlng)))
   \<and> (variance st < 0 \<longrightarrow>
        applyKalmanFilter mlat mlng acc st
          = (\<lparr>lat_K = mlat, lng_K = mlng, variance = acc * acc\<rparr>, (mlat, mlng)))
   \<and> 0 \<le> variance (fst (applyKalmanFilter mlat mlng acc st))
   \<and> smooth c st = applyKalmanFilter (latitude c) (longitude c)
                      (if accuracy c = 0 then 10 else accuracy c) st"
proof -
  let ?v1 = "variance st + 1 / 1000000"
  let ?D = "?v1 + acc * acc"
  have a: "0 < ?D" if "\<not> variance st < 0" using that by (rule kalman_denominator_pos)
  have la: "fst (snd (applyKalmanFilter mlat mlng acc st)) * ?D
              = lat_K st * (acc * acc) + mlat * ?v1" if h: "\<not> variance st < 0"
    using weighted_mean[OF a[OF h], of "lat_K st" mlat]
    by (simp only: kalman_update_lat(1)[OF h])
  have ln: "snd (snd (applyKalmanFilter mlat mlng acc st)) * ?D
              = lng_K st * (acc * acc) + mlng * ?v1" if h: "\<not> variance st < 0"
    using weighted_mean[OF a[OF h], of "lng_K st" mlng]
    by (simp only: kalman_update_lat(2)[OF h])
  have bt: "min (lat_K st) mlat \<le> fst (snd (applyKalmanFilter mlat mlng acc st))
      \<and> fst (snd (applyKalmanFilter mlat mlng acc st)) \<le> max (lat_K st) mlat
      \<and> min (lng_K st) mlng \<le> snd (snd (applyKalmanFilter mlat mlng acc st))
      \<and> snd (snd (applyKalmanFilter mlat mlng acc st)) \<le> max (lng_K st) mlng"
    if h: "\<not> variance st < 0"
  proof -
    note g = gain_bounds[OF h, of acc]
    from g(1) have g0: "0 \<le> ?v1 / ?D" by simp
    show ?thesis
      unfolding kalman_update_lat[OF h]
      using between_convex[OF g0 g(2)] by blast
  qed
  have vu: "variance (fst (applyKalmanFilter mlat mlng acc st)) \<le> ?v1" if h: "\<not> variance st < 0"
  proof -
    have "?v1 * (acc * acc) \<le> ?v1 * ?D"
    proof -
      have "0 \<le> ?v1 * ?v1" by simp
      then show ?thesis by (simp add: algebra_simps)
    qed
    then have "?v1 * (acc * acc) / ?D \<le> ?v1" using a[OF h] by (simp add: pos_divide_le_eq)
    then show ?thesis by (simp only: variance_step[OF h])
  qed
  have z: "applyKalmanFilter mlat mlng 0 st
          = (\<lparr>lat_K = mlat, lng_K = mlng, variance = 0\<rparr>, (mlat, mlng))"
    if h: "\<not> variance st < 0"
  proof -
    have ne: "variance st + 1 / 1000000 \<noteq> 0" using h by linarith
    show ?thesis
      using h ne by (simp add: applyKalmanFilter_def Let_def)
  qed
  have r: "applyKalmanFilter mlat mlng acc st
          = (\<lparr>lat_K = mlat, lng_K = mlng, variance = acc * acc\<rparr>, (mlat, mlng))"
    if "variance st < 0"
    using that by (rule first_update_raw)
  have nn: "0 \<le> variance (fst (applyKalmanFilter mlat mlng acc st))"
  proof (cases "variance st < 0")
    case True
    then show ?thesis by (simp add: first_update_raw)
  next
    case False
    have "0 \<le> ?v1 * (acc * acc)" using False by simp
    then show ?thesis using a[OF False] variance_step[OF False, of mlat mlng acc] by simp
  qed
  show ?thesis
    using a la ln bt vu z r nn by (simp add: smooth_def accuracyOrDefault_def)
qed

theorem filter_update_well_defined_witness:
  "\<not> variance \<lparr>lat_K = 5, lng_K = 5, variance = 25\<rparr> < 0
   \<and> 0 < (variance \<lparr>lat_K = 5, lng_K = 5, variance = 25\<rparr> + 1 / 1000000) + 5 * (5 :: real)
   \<and> applyKalmanFilter 1 2 5 \<lparr>lat_K = 5, lng_K = 5, variance = 25\<rparr>
       = (\<lparr>lat_K = 150000001 / 50000001, lng_K = 175000002 / 50000001,
           variance = 625000025 / 50000001\<rparr>,
          (150000001 / 50000001, 175000002 / 50000001))
   \<and> min 5 1 \<le> fst (snd (applyKalmanFilter 1 2 5 \<lparr>lat_K = 5, lng_K = 5, variance = 25\<rparr>))
   \<and> fst (snd (applyKalmanFilter 1 2 5 \<lparr>lat_K = 5, lng_K = 5, variance = 25\<rparr>)) \<le> max 5 1
   \<and> applyKalmanFilter 1 2 0 \<lparr>lat_K = 5, lng_K = 5, variance = 25\<rparr>
       = (\<lparr>lat_K = 1, lng_K = 2, variance = 0\<rparr>, (1, 2))
   \<and> variance \<lparr>lat_K = 5, lng_K = 5, variance = - 1\<rparr> < 0
   \<and> applyKalmanFilter 1 2 0 \<lparr>lat_K = 5, lng_K = 5, variance = - 1\<rparr>
       = (\<lparr>lat_K = 1, lng_K = 2, variance = 0\<rparr>, (1, 2))
   \<and> smooth (fixAt 3 0) \<lparr>lat_K = 5, lng_K = 5, variance = - 1\<rparr>
       = (\<lparr>lat_K = 0, lng_K = 3, variance = 100\<rparr>, (0, 3))"
proof -
  have ev: "applyKalmanFilter 1 2 5 \<lparr>lat_K = 5, lng_K = 5, variance = 25\<rparr>
       = (\<lparr>lat_K = 150000001 / 50000001, lng_K = 175000002 / 50000001,
           variance = 625000025 / 50000001\<rparr>,
          (150000001 / 50000001, 175000002 / 50000001))"
    by (simp add: applyKalmanFilter_def Let_def)
  show ?thesis
    using filter_update_well_defined[of "\<lparr>lat_K = 5, lng_K = 5, variance = 25\<rparr>" 5 1 2 "fixAt 3 0"]
          filter_update_well_defined[of "\<lparr>lat_K = 5, lng_K = 5, variance = - 1\<rparr>" 0 1 2 "fixAt 3 0"]
          ev
    by (simp add: fixAt_simps first_update_raw)
qed

section \<open>Proximity: properties\<close>

lemma filter_shopsWithDistances:
  "filter (\<lambda>shop. snd shop \<le> r) (shopsWithDistances S (Some p)) \<noteq> []
     \<longleftrightarrow> (\<exists>s\<in>set S. calculateDistance p (location s) \<le> r)"
  by (auto simp add: shopsWithDistances_def filter_empty_conv)

lemma atShop_exampleRegistry: "atShop (shopsWithDistances exampleRegistry (Some (eastOf 0))) 1
        = Some (shopHere, 0)"
  using pi_ge_two pi_less_4
  by (simp add: atShop_def shopsWithDistances_def exampleRegistry_def shopClose_def shopHere_def shopTwin_def shopFar_def
       shopAt_location calculateDistance_east)

text \<open>
  C4. For every registry S (the component passes its active shops), location p and
  detection radius r: atShop is not none exactly when some shop of S is at distance at most
  r; the shop returned is at distance at most r, no shop within r is nearer, and every
  shop within r that stands before it in the registry is strictly farther (the first of
  the nearest wins); with an empty registry, or no current location, the result is none.
\<close>

theorem atShop_nearest_first:
  "(atShop (shopsWithDistances S (Some p)) r \<noteq> None
      \<longleftrightarrow> (\<exists>s\<in>set S. calculateDistance p (location s) \<le> r))
   \<and> (\<forall>x dx. atShop (shopsWithDistances S (Some p)) r = Some (x, dx) \<longrightarrow>
          dx = calculateDistance p (location x) \<and> dx \<le> r
          \<and> (\<exists>i<length S. S ! i = x
                \<and> (\<forall>j<length S. calculateDistance p (location (S ! j)) \<le> r
                       \<longrightarrow> dx \<le> calculateDistance p (location (S ! j)))
                \<and> (\<forall>j<i. calculateDistance p (location (S ! j)) \<le> r
                       \<longrightarrow> dx < calculateDistance p (location (S ! j)))))
   \<and> atShop (shopsWithDistances [] (Some p)) r = None
   \<and> atShop (shopsWithDistances S None) r = None
   \<and> atShopOf s = atShop (shopsWithDistances (activeShops (shops s) (activeAreas (areas s)))
                                (currentLocation s)) (detectionRange s)"
proof -
  let ?d = "\<lambda>s. calculateDistance p (location s)"
  let ?swd = "shopsWithDistances S (Some p)"
  let ?P = "\<lambda>shop :: Shop \<times> real. snd shop \<le> r"
  have nth: "?swd ! j = (S ! j, ?d (S ! j))" if "j < length S" for j
    using that by (simp add: shopsWithDistances_def)
  have len: "length ?swd = length S" by (simp add: shopsWithDistances_def)
  have a: "atShop ?swd r \<noteq> None \<longleftrightarrow> (\<exists>s\<in>set S. ?d s \<le> r)"
    using filter_shopsWithDistances[of r S p] by (auto simp add: atShop_def Let_def)
  have b: "dx = ?d x \<and> dx \<le> r
          \<and> (\<exists>i<length S. S ! i = x
                \<and> (\<forall>j<length S. ?d (S ! j) \<le> r \<longrightarrow> dx \<le> ?d (S ! j))
                \<and> (\<forall>j<i. ?d (S ! j) \<le> r \<longrightarrow> dx < ?d (S ! j)))"
    if h: "atShop ?swd r = Some (x, dx)" for x dx
  proof -
    from h have ne: "filter ?P ?swd \<noteq> []" and hd: "hd (sort_key snd (filter ?P ?swd)) = (x, dx)"
      by (auto simp add: atShop_def Let_def split: if_splits)
    from hd_sort_filter_first_min[OF ne, of snd] obtain i where i: "i < length ?swd"
      and hi: "?swd ! i = hd (sort_key snd (filter ?P ?swd))" and pi: "?P (?swd ! i)"
      and mn: "\<forall>j<length ?swd. ?P (?swd ! j) \<longrightarrow> snd (?swd ! i) \<le> snd (?swd ! j)"
      and fs: "\<forall>j<i. ?P (?swd ! j) \<longrightarrow> snd (?swd ! i) < snd (?swd ! j)" by blast
    from i have iS: "i < length S" by (simp add: len)
    from hi hd nth[OF iS] have x: "S ! i = x" and dx: "dx = ?d (S ! i)" by auto
    from pi nth[OF iS] dx have le: "dx \<le> r" by simp
    have mn': "\<forall>j<length S. ?d (S ! j) \<le> r \<longrightarrow> dx \<le> ?d (S ! j)"
      using mn nth iS dx by (simp add: len)
    have fs': "\<forall>j<i. ?d (S ! j) \<le> r \<longrightarrow> dx < ?d (S ! j)"
    proof (intro allI impI)
      fix j assume j: "j < i" "?d (S ! j) \<le> r"
      then have "j < length S" using iS by simp
      with j fs nth[of j] nth[OF iS] dx show "dx < ?d (S ! j)" by auto
    qed
    show ?thesis using x dx le iS mn' fs' by blast
  qed
  have c: "atShop (shopsWithDistances [] (Some p)) r = None"
    by (simp add: atShop_def shopsWithDistances_def)
  have d: "atShop (shopsWithDistances S None) r = None"
    by (simp add: atShop_def shopsWithDistances_def)
  have e: "atShopOf s = atShop (shopsWithDistances (activeShops (shops s) (activeAreas (areas s)))
                                (currentLocation s)) (detectionRange s)"
    by (simp add: atShopOf_def shopsRef_def)
  show ?thesis using a b c d e by blast
qed


theorem atShop_nearest_first_witness:
  "atShop (shopsWithDistances exampleRegistry (Some (eastOf 0))) 1 = Some (shopHere, 0)
   \<and> (\<exists>s\<in>set exampleRegistry. calculateDistance (eastOf 0) (location s) \<le> 1)
   \<and> (\<exists>i<length exampleRegistry. exampleRegistry ! i = shopHere
          \<and> (\<forall>j<length exampleRegistry.
                 calculateDistance (eastOf 0) (location (exampleRegistry ! j)) \<le> 1
                 \<longrightarrow> 0 \<le> calculateDistance (eastOf 0) (location (exampleRegistry ! j)))
          \<and> (\<forall>j<i. calculateDistance (eastOf 0) (location (exampleRegistry ! j)) \<le> 1
                 \<longrightarrow> 0 < calculateDistance (eastOf 0) (location (exampleRegistry ! j))))
   \<and> exampleRegistry ! 1 = shopHere
   \<and> calculateDistance (eastOf 0) (location (exampleRegistry ! 0)) \<le> 1
   \<and> 0 < calculateDistance (eastOf 0) (location (exampleRegistry ! 0))
   \<and> calculateDistance (eastOf 0) (location (exampleRegistry ! 2)) = 0"
proof -
  have ev: "atShop (shopsWithDistances exampleRegistry (Some (eastOf 0))) 1 = Some (shopHere, 0)"
    by (rule atShop_exampleRegistry)
  have ds: "calculateDistance (eastOf 0) (location (exampleRegistry ! 0)) \<le> 1"
       "0 < calculateDistance (eastOf 0) (location (exampleRegistry ! 0))"
       "calculateDistance (eastOf 0) (location (exampleRegistry ! 2)) = 0"
       "exampleRegistry ! 1 = shopHere"
    using pi_less_4
    by (simp_all add: exampleRegistry_def shopClose_def shopTwin_def shopAt_location
          calculateDistance_east)
  show ?thesis
    using atShop_nearest_first[of exampleRegistry "eastOf 0" 1] ev ds by simp
qed

lemma atShop_mem: "atShop swd r = Some y \<Longrightarrow> y \<in> set swd"
proof -
  assume h: "atShop swd r = Some y"
  let ?w = "filter (\<lambda>shop. snd shop \<le> r) swd"
  from h have ne: "?w \<noteq> []" and y: "y = hd (sort_key snd ?w)"
    by (auto simp add: atShop_def Let_def split: if_splits)
  from ne have "sort_key snd ?w \<noteq> []" by (simp add: sort_key_eq_Nil)
  then have "hd (sort_key snd ?w) \<in> set (sort_key snd ?w)" by (rule hd_in_set)
  then show ?thesis using y by auto
qed

lemma nearbyShops_subset: "set (nearbyShops swd r) \<subseteq> set swd"
  by (auto simp add: nearbyShops_def)

lemma shopsWithDistances_fst: "y \<in> set (shopsWithDistances S cur) \<Longrightarrow> fst y \<in> set S"
  by (auto simp add: shopsWithDistances_def split: option.splits)

lemma fold_alertStep_fired_subset:
  "set (snd (fold (alertStep l) xs st)) \<subseteq> set (snd st) \<union> set xs"
proof (induction xs arbitrary: st)
  case Nil
  then show ?case by simp
next
  case (Cons x xs)
  have "set (snd (alertStep l x st)) \<subseteq> set (snd st) \<union> {x}"
    by (auto simp add: alertStep_def Let_def)
  with Cons.IH[of "alertStep l x st"] show ?case by auto
qed

lemma proximityAlerts_fired_subset: "set (snd (proximityAlerts l S A)) \<subseteq> set S"
  using fold_alertStep_fired_subset[of l S "(A, [])"] by (simp add: proximityAlerts_def)

lemma inactive_not_in_shopsRef:
  assumes "isArchived_Shop x = Some True
           \<or> (\<forall>a\<in>set (areas s). id_Area a = areaId x \<longrightarrow> isArchived_Area a = Some True)"
  shows "x \<notin> set (shopsRef s)"
  using assms by (auto simp add: shopsRef_def activeShops_def activeAreas_def list_ex_iff)

lemma shopsRef_mixedState: "shopsRef mixedState = [shopHere]"
  by (simp add: shopsRef_def mixedState_def idleState_def activeShops_def activeAreas_def
        shopArchived_def shopOrphan_def shopHere_def shopAt_def areaNorth_def areaClosed_def)

lemma newLocOf_reset:
  "variance (kalmanStateRef s) < 0 \<Longrightarrow>
   newLocOf c s = \<lparr>lat = latitude c, lng = longitude c,
                   heading = heading_Coords c, speed = speed_Coords c\<rparr>"
  by (simp add: newLocOf_def smooth_def first_update_raw)

lemma mixedState_fields:
  "currentLocation mixedState = Some (eastOf 0)" "detectionRange mixedState = 1"
  "nearbyRange mixedState = 20" "alertedShopsRef mixedState = {}"
  "kalmanStateRef mixedState = \<lparr>lat_K = 0, lng_K = 0, variance = - 1\<rparr>"
  by (simp_all add: mixedState_def idleState_def)

lemma location_examples:
  "location shopClose = eastOf (5 / 1000000)" "location shopHere = eastOf 0"
  "location shopTwin = eastOf 0" "location shopFar = eastOf (2 / 1000)"
  "location shopArchived = eastOf 0" "location shopOrphan = eastOf 0"
  by (simp_all add: shopClose_def shopHere_def shopTwin_def shopFar_def shopArchived_def
        shopOrphan_def shopAt_location)

lemma newLocOf_mixedState: "newLocOf (fixAt 0 5) mixedState = eastOf 0"
  by (simp add: newLocOf_reset mixedState_fields fixAt_def eastOf_def)

text \<open>
  C10. A shop that is archived, or whose area id belongs to no area that is not archived,
  is never the result of atShop, never among nearbyShops and never among the shops a
  callback alerts for, whatever its distance; the alert shown after a callback is the one
  of the last shop it alerted for.
\<close>

theorem inactive_shops_ignored:
  assumes "isArchived_Shop x = Some True
           \<or> (\<forall>a\<in>set (areas s). id_Area a = areaId x \<longrightarrow> isArchived_Area a = Some True)"
  shows "(\<forall>d. atShopOf s \<noteq> Some (x, d))
       \<and> (\<forall>d. (x, d) \<notin> set (nearbyShopsOf s))
       \<and> x \<notin> set (enterAlerts c s)
       \<and> alertInfo (watchCallback c now s) =
           (if enterAlerts c s = [] then alertInfo s else alertPayload (last (enterAlerts c s)))"
proof -
  have nin: "x \<notin> set (shopsRef s)" using assms by (rule inactive_not_in_shopsRef)
  have a: "atShopOf s \<noteq> Some (x, d)" for d
  proof
    assume "atShopOf s = Some (x, d)"
    then have "(x, d) \<in> set (shopsWithDistances (shopsRef s) (currentLocation s))"
      unfolding atShopOf_def by (rule atShop_mem)
    then have "x \<in> set (shopsRef s)" using shopsWithDistances_fst by fastforce
    with nin show False by simp
  qed
  have b: "(x, d) \<notin> set (nearbyShopsOf s)" for d
  proof
    assume "(x, d) \<in> set (nearbyShopsOf s)"
    then have "(x, d) \<in> set (shopsWithDistances (shopsRef s) (currentLocation s))"
      unfolding nearbyShopsOf_def using nearbyShops_subset by blast
    then have "x \<in> set (shopsRef s)" using shopsWithDistances_fst by fastforce
    with nin show False by simp
  qed
  have c: "x \<notin> set (enterAlerts c s)"
    using nin proximityAlerts_fired_subset[of "newLocOf c s" "shopsRef s" "alertedShopsRef s"]
    by (auto simp add: enterAlerts_def)
  have d: "alertInfo (watchCallback c now s) =
           (if enterAlerts c s = [] then alertInfo s else alertPayload (last (enterAlerts c s)))"
    by (simp add: watchCallback_def enterAlerts_def Let_def split: option.split prod.split)
  show ?thesis using a b c d by blast
qed

theorem inactive_shops_ignored_witness:
  "isArchived_Shop shopArchived = Some True
   \<and> isArchived_Area areaClosed = Some True \<and> areaId shopOrphan = id_Area areaClosed
   \<and> calculateDistance (eastOf 0) (location shopArchived) = 0
   \<and> calculateDistance (eastOf 0) (location shopOrphan) = 0
   \<and> atShopOf mixedState = Some (shopHere, 0)
   \<and> atShopOf mixedState \<noteq> Some (shopArchived, 0)
   \<and> atShopOf mixedState \<noteq> Some (shopOrphan, 0)
   \<and> nearbyShopsOf mixedState = [(shopHere, 0)]
   \<and> (shopArchived, 0) \<notin> set (nearbyShopsOf mixedState)
   \<and> (shopOrphan, 0) \<notin> set (nearbyShopsOf mixedState)
   \<and> enterAlerts (fixAt 0 5) mixedState = [shopHere]
   \<and> shopArchived \<notin> set (enterAlerts (fixAt 0 5) mixedState)
   \<and> shopOrphan \<notin> set (enterAlerts (fixAt 0 5) mixedState)"
proof -
  have h1: "isArchived_Shop shopArchived = Some True" by (simp add: shopArchived_def shopAt_def)
  have h2: "\<forall>a\<in>set (areas mixedState). id_Area a = areaId shopOrphan \<longrightarrow> isArchived_Area a = Some True"
    by (simp add: mixedState_def shopOrphan_def shopAt_def areaNorth_def areaClosed_def)
  have e1: "atShopOf mixedState = Some (shopHere, 0)"
    by (simp add: atShopOf_def shopsRef_mixedState atShop_def shopsWithDistances_def
          mixedState_fields location_examples calculateDistance_same)
  have e2: "nearbyShopsOf mixedState = [(shopHere, 0)]"
    by (simp add: nearbyShopsOf_def shopsRef_mixedState nearbyShops_def shopsWithDistances_def
          mixedState_fields location_examples calculateDistance_same)
  have e3: "enterAlerts (fixAt 0 5) mixedState = [shopHere]"
    by (simp add: enterAlerts_def shopsRef_mixedState newLocOf_mixedState proximityAlerts_def
          alertStep_def Let_def mixedState_fields location_examples calculateDistance_same)
  have d: "calculateDistance (eastOf 0) (location shopArchived) = 0"
          "calculateDistance (eastOf 0) (location shopOrphan) = 0"
          "isArchived_Area areaClosed = Some True" "areaId shopOrphan = id_Area areaClosed"
    by (simp_all add: location_examples calculateDistance_same
          areaClosed_def shopOrphan_def shopAt_def)
  show ?thesis
    using inactive_shops_ignored[of shopArchived mixedState "fixAt 0 5" 0, OF disjI1, OF h1]
          inactive_shops_ignored[of shopOrphan mixedState "fixAt 0 5" 0, OF disjI2, OF h2]
          h1 e1 e2 e3 d
    by simp
qed

section \<open>Proximity alerts: properties\<close>

lemma fold_alertStep_other:
  "sid \<notin> id_Shop ` set xs \<Longrightarrow>
   (sid \<in> fst (fold (alertStep l) xs st) \<longleftrightarrow> sid \<in> fst st)
   \<and> filter (\<lambda>s. id_Shop s = sid) (snd (fold (alertStep l) xs st))
       = filter (\<lambda>s. id_Shop s = sid) (snd st)"
proof (induction xs arbitrary: st)
  case Nil
  then show ?case by simp
next
  case (Cons x xs)
  then have ne: "id_Shop x \<noteq> sid" and rest: "sid \<notin> id_Shop ` set xs" by auto
  have step: "(sid \<in> fst (alertStep l x st) \<longleftrightarrow> sid \<in> fst st)
     \<and> filter (\<lambda>s. id_Shop s = sid) (snd (alertStep l x st))
         = filter (\<lambda>s. id_Shop s = sid) (snd st)"
    using ne by (auto simp add: alertStep_def Let_def)
  from Cons.IH[OF rest, of "alertStep l x st"] step show ?case by simp
qed

lemma fold_alertStep_member:
  "distinct (map id_Shop xs) \<Longrightarrow> X \<in> set xs \<Longrightarrow>
   (id_Shop X \<in> fst (fold (alertStep l) xs st)
      \<longleftrightarrow> calculateDistance l (location X) < 40
          \<or> (calculateDistance l (location X) \<le> 100 \<and> id_Shop X \<in> fst st))
   \<and> filter (\<lambda>s. id_Shop s = id_Shop X) (snd (fold (alertStep l) xs st))
       = filter (\<lambda>s. id_Shop s = id_Shop X) (snd st)
         @ (if calculateDistance l (location X) < 40 \<and> id_Shop X \<notin> fst st then [X] else [])"
proof (induction xs arbitrary: st)
  case Nil
  then show ?case by simp
next
  case (Cons x xs)
  show ?case
  proof (cases "x = X")
    case True
    from Cons.prems have rest: "id_Shop X \<notin> id_Shop ` set xs" using True by auto
    have step: "(id_Shop X \<in> fst (alertStep l X st)
          \<longleftrightarrow> calculateDistance l (location X) < 40
              \<or> (calculateDistance l (location X) \<le> 100 \<and> id_Shop X \<in> fst st))
       \<and> filter (\<lambda>s. id_Shop s = id_Shop X) (snd (alertStep l X st))
           = filter (\<lambda>s. id_Shop s = id_Shop X) (snd st)
             @ (if calculateDistance l (location X) < 40 \<and> id_Shop X \<notin> fst st then [X] else [])"
      by (auto simp add: alertStep_def Let_def)
    from fold_alertStep_other[OF rest, of l "alertStep l X st"] step True
    show ?thesis by simp
  next
    case False
    with Cons.prems have mem: "X \<in> set xs" and dist: "distinct (map id_Shop xs)"
      and ne: "id_Shop x \<noteq> id_Shop X" by auto
    have step: "(id_Shop X \<in> fst (alertStep l x st) \<longleftrightarrow> id_Shop X \<in> fst st)
       \<and> filter (\<lambda>s. id_Shop s = id_Shop X) (snd (alertStep l x st))
           = filter (\<lambda>s. id_Shop s = id_Shop X) (snd st)"
      using ne by (auto simp add: alertStep_def Let_def)
    from Cons.IH[OF dist mem, of "alertStep l x st"] step show ?thesis by simp
  qed
qed

lemma proximityAlerts_member:
  assumes "distinct (map id_Shop S)" "X \<in> set S"
  shows "(id_Shop X \<in> fst (proximityAlerts l S A)
            \<longleftrightarrow> calculateDistance l (location X) < 40
                \<or> (calculateDistance l (location X) \<le> 100 \<and> id_Shop X \<in> A))"
    and "filter (\<lambda>s. id_Shop s = id_Shop X) (snd (proximityAlerts l S A))
           = (if calculateDistance l (location X) < 40 \<and> id_Shop X \<notin> A then [X] else [])"
  using fold_alertStep_member[OF assms, of l "(A, [])"] by (simp_all add: proximityAlerts_def)

lemma proximityAlerts_fires_iff:
  assumes "distinct (map id_Shop S)" "X \<in> set S"
  shows "X \<in> set (snd (proximityAlerts l S A))
           \<longleftrightarrow> calculateDistance l (location X) < 40 \<and> id_Shop X \<notin> A"
proof -
  have "X \<in> set (snd (proximityAlerts l S A))
        \<longleftrightarrow> X \<in> set (filter (\<lambda>s. id_Shop s = id_Shop X) (snd (proximityAlerts l S A)))"
    by simp
  then show ?thesis by (simp add: proximityAlerts_member(2)[OF assms])
qed

lemma alerted_until_exit:
  assumes "distinct (map id_Shop S)" "X \<in> set S"
  shows "id_Shop X \<in> A \<Longrightarrow> j < length ls \<Longrightarrow> X \<in> set (alertTrace S ls A ! j) \<Longrightarrow>
         \<exists>k<j. calculateDistance (ls ! k) (location X) > 100"
proof (induction ls arbitrary: A j)
  case Nil
  then show ?case by simp
next
  case (Cons l ls)
  show ?case
  proof (cases j)
    case 0
    with Cons.prems proximityAlerts_fires_iff[OF assms, of l A] show ?thesis by simp
  next
    case (Suc j')
    show ?thesis
    proof (cases "calculateDistance l (location X) > 100")
      case True
      then show ?thesis using Suc by (intro exI[of _ 0]) simp
    next
      case False
      then have "id_Shop X \<in> fst (proximityAlerts l S A)"
        using Cons.prems(1) proximityAlerts_member(1)[OF assms, of l A] by simp
      from Cons.IH[OF this, of j'] Cons.prems Suc
      obtain k where "k < j'" "calculateDistance (ls ! k) (location X) > 100" by auto
      then show ?thesis using Suc by (intro exI[of _ "Suc k"]) simp
    qed
  qed
qed

lemma no_second_enter_before_exit:
  assumes "distinct (map id_Shop S)" "X \<in> set S"
  shows "i < j \<Longrightarrow> j < length ls \<Longrightarrow> X \<in> set (alertTrace S ls A ! i) \<Longrightarrow>
         X \<in> set (alertTrace S ls A ! j) \<Longrightarrow>
         \<exists>k. i < k \<and> k < j \<and> calculateDistance (ls ! k) (location X) > 100"
proof (induction ls arbitrary: A i j)
  case Nil
  then show ?case by simp
next
  case (Cons l ls)
  from Cons.prems(1) obtain j' where j: "j = Suc j'" by (cases j) auto
  show ?case
  proof (cases i)
    case 0
    with Cons.prems have "X \<in> set (snd (proximityAlerts l S A))" by simp
    then have "calculateDistance l (location X) < 40"
      using proximityAlerts_fires_iff[OF assms, of l A] by simp
    then have inA: "id_Shop X \<in> fst (proximityAlerts l S A)"
      using proximityAlerts_member(1)[OF assms, of l A] by simp
    from alerted_until_exit[OF assms inA, of j' ls] Cons.prems j
    obtain k where "k < j'" "calculateDistance (ls ! k) (location X) > 100" by auto
    then show ?thesis using 0 j by (intro exI[of _ "Suc k"]) simp
  next
    case (Suc i')
    from Cons.IH[of i' j' "fst (proximityAlerts l S A)"] Cons.prems Suc j
    obtain k where "i' < k" "k < j'" "calculateDistance (ls ! k) (location X) > 100" by auto
    then show ?thesis using Suc j by (intro exI[of _ "Suc k"]) simp
  qed
qed


lemma watchCallback_alerted:
  "alertedShopsRef (watchCallback c now s)
     = fst (proximityAlerts (newLocOf c s) (shopsRef s) (alertedShopsRef s))"
  by (simp add: watchCallback_def Let_def split: option.split prod.split)

lemma watchCallback_alertInfo:
  "alertInfo (watchCallback c now s)
     = (if enterAlerts c s = [] then alertInfo s else alertPayload (last (enterAlerts c s)))"
  by (simp add: watchCallback_def enterAlerts_def Let_def split: option.split prod.split)

lemma alertTrace_example:
  "alertTrace [shopHere]
     [eastOf (25 / 100000), eastOf (25 / 100000), eastOf (6 / 10000), eastOf (25 / 100000),
      eastOf (2 / 1000), eastOf (25 / 100000)] {}
   = [[shopHere], [], [], [], [], [shopHere]]"
  using pi_ge_two pi_less_4
  by (simp add: proximityAlerts_def alertStep_def Let_def location_examples
        calculateDistance_east)

text \<open>
  C2, as stated, fails in the payload of the event: the alert a callback emits is
  \<open>{show: true, shopName, ownerName}\<close> and carries no shop id, so two shops with
  different ids and the same name and owner emit the same alert.
\<close>

theorem enter_payload_counterexample:
  "enterAlerts (fixAt 0 5) (idleState\<lparr>shops := [shopHere]\<rparr>) = [shopHere]
   \<and> enterAlerts (fixAt 0 5) (idleState\<lparr>shops := [shopTwin\<lparr>name_Shop := ''Beta Store''\<rparr>]\<rparr>)
       = [shopTwin\<lparr>name_Shop := ''Beta Store''\<rparr>]
   \<and> id_Shop shopHere \<noteq> id_Shop (shopTwin\<lparr>name_Shop := ''Beta Store''\<rparr>)
   \<and> alertInfo (watchCallback (fixAt 0 5) 0 (idleState\<lparr>shops := [shopHere]\<rparr>))
       = \<lparr>show_Alert = True, shopName = ''Beta Store'', ownerName_Alert = ''Karim''\<rparr>
   \<and> alertInfo (watchCallback (fixAt 0 5) 0
         (idleState\<lparr>shops := [shopTwin\<lparr>name_Shop := ''Beta Store''\<rparr>]\<rparr>))
       = \<lparr>show_Alert = True, shopName = ''Beta Store'', ownerName_Alert = ''Karim''\<rparr>"
  by (simp add: watchCallback_alertInfo enterAlerts_def newLocOf_reset idleState_def shopsRef_def
        activeShops_def activeAreas_def areaNorth_def shopHere_def shopTwin_def shopAt_def
        proximityAlerts_def alertStep_def Let_def fixAt_def eastOf_def calculateDistance_same
        alertPayload_def)

text \<open>
  C2, amended. In a registry with distinct shop ids, for every shop X of it and every
  location update: when X is at less than 40m and its id is not in the alerted set, the id
  is added and exactly one alert is emitted for X, whose payload is
  \<open>{show: true, shopName, ownerName}\<close>; when the id is already in the set no alert is
  emitted for X; at more than 100m the id is removed and no alert is emitted; from 40m to
  100m the membership of the id is unchanged and no alert is emitted. Over every sequence
  of updates, between two alerts for X there is an update that observes X at more than
  100m. The callback runs this evaluation on the active shops at the smoothed location.
\<close>

theorem enter_alert_hysteresis:
  assumes "distinct (map id_Shop S)" and "X \<in> set S"
  shows "(calculateDistance l (location X) < 40 \<and> id_Shop X \<notin> A \<longrightarrow>
            id_Shop X \<in> fst (proximityAlerts l S A)
          \<and> filter (\<lambda>s. id_Shop s = id_Shop X) (snd (proximityAlerts l S A)) = [X])
       \<and> (calculateDistance l (location X) < 40 \<and> id_Shop X \<in> A \<longrightarrow>
            id_Shop X \<in> fst (proximityAlerts l S A)
          \<and> filter (\<lambda>s. id_Shop s = id_Shop X) (snd (proximityAlerts l S A)) = [])
       \<and> (calculateDistance l (location X) > 100 \<longrightarrow>
            id_Shop X \<notin> fst (proximityAlerts l S A)
          \<and> filter (\<lambda>s. id_Shop s = id_Shop X) (snd (proximityAlerts l S A)) = [])
       \<and> (40 \<le> calculateDistance l (location X) \<and> calculateDistance l (location X) \<le> 100 \<longrightarrow>
            (id_Shop X \<in> fst (proximityAlerts l S A) \<longleftrightarrow> id_Shop X \<in> A)
          \<and> filter (\<lambda>s. id_Shop s = id_Shop X) (snd (proximityAlerts l S A)) = [])
       \<and> (\<forall>ls i j. i < j \<and> j < length ls
              \<and> X \<in> set (alertTrace S ls A ! i) \<and> X \<in> set (alertTrace S ls A ! j) \<longrightarrow>
              (\<exists>k. i < k \<and> k < j \<and> calculateDistance (ls ! k) (location X) > 100))
       \<and> alertPayload X
            = \<lparr>show_Alert = True, shopName = name_Shop X, ownerName_Alert = ownerName X\<rparr>
       \<and> alertedShopsRef (watchCallback c now s)
            = fst (proximityAlerts (newLocOf c s) (shopsRef s) (alertedShopsRef s))
       \<and> enterAlerts c s
            = snd (proximityAlerts (newLocOf c s) (shopsRef s) (alertedShopsRef s))"
proof -
  note m = proximityAlerts_member[OF assms, of l A]
  have steps:
    "calculateDistance l (location X) < 40 \<and> id_Shop X \<notin> A \<longrightarrow>
            id_Shop X \<in> fst (proximityAlerts l S A)
          \<and> filter (\<lambda>s. id_Shop s = id_Shop X) (snd (proximityAlerts l S A)) = [X]"
    "calculateDistance l (location X) < 40 \<and> id_Shop X \<in> A \<longrightarrow>
            id_Shop X \<in> fst (proximityAlerts l S A)
          \<and> filter (\<lambda>s. id_Shop s = id_Shop X) (snd (proximityAlerts l S A)) = []"
    "calculateDistance l (location X) > 100 \<longrightarrow>
            id_Shop X \<notin> fst (proximityAlerts l S A)
          \<and> filter (\<lambda>s. id_Shop s = id_Shop X) (snd (proximityAlerts l S A)) = []"
    "40 \<le> calculateDistance l (location X) \<and> calculateDistance l (location X) \<le> 100 \<longrightarrow>
            (id_Shop X \<in> fst (proximityAlerts l S A) \<longleftrightarrow> id_Shop X \<in> A)
          \<and> filter (\<lambda>s. id_Shop s = id_Shop X) (snd (proximityAlerts l S A)) = []"
    by (simp_all add: m)
  have hyst: "\<forall>ls i j. i < j \<and> j < length ls
              \<and> X \<in> set (alertTrace S ls A ! i) \<and> X \<in> set (alertTrace S ls A ! j) \<longrightarrow>
              (\<exists>k. i < k \<and> k < j \<and> calculateDistance (ls ! k) (location X) > 100)"
    using no_second_enter_before_exit[OF assms] by blast
  show ?thesis
    using steps hyst by (simp add: alertPayload_def watchCallback_alerted enterAlerts_def)
qed

theorem enter_alert_hysteresis_witness:
  "distinct (map id_Shop [shopHere]) \<and> shopHere \<in> set [shopHere]
   \<and> calculateDistance (eastOf (25 / 100000)) (location shopHere) < 40
   \<and> fst (proximityAlerts (eastOf (25 / 100000)) [shopHere] {}) = {id_Shop shopHere}
   \<and> snd (proximityAlerts (eastOf (25 / 100000)) [shopHere] {}) = [shopHere]
   \<and> snd (proximityAlerts (eastOf (25 / 100000)) [shopHere] {id_Shop shopHere}) = []
   \<and> 40 \<le> calculateDistance (eastOf (6 / 10000)) (location shopHere)
   \<and> calculateDistance (eastOf (6 / 10000)) (location shopHere) \<le> 100
   \<and> fst (proximityAlerts (eastOf (6 / 10000)) [shopHere] {id_Shop shopHere}) = {id_Shop shopHere}
   \<and> fst (proximityAlerts (eastOf (6 / 10000)) [shopHere] {}) = {}
   \<and> calculateDistance (eastOf (2 / 1000)) (location shopHere) > 100
   \<and> fst (proximityAlerts (eastOf (2 / 1000)) [shopHere] {id_Shop shopHere}) = {}
   \<and> snd (proximityAlerts (eastOf (2 / 1000)) [shopHere] {id_Shop shopHere}) = []
   \<and> alertTrace [shopHere]
        [eastOf (25 / 100000), eastOf (25 / 100000), eastOf (6 / 10000), eastOf (25 / 100000),
         eastOf (2 / 1000), eastOf (25 / 100000)] {}
       = [[shopHere], [], [], [], [], [shopHere]]
   \<and> (\<exists>k. 0 < k \<and> k < 5
          \<and> calculateDistance
               ([eastOf (25 / 100000), eastOf (25 / 100000), eastOf (6 / 10000),
                 eastOf (25 / 100000), eastOf (2 / 1000), eastOf (25 / 100000)] ! k)
               (location shopHere) > 100)"
proof -
  let ?ls = "[eastOf (25 / 100000), eastOf (25 / 100000), eastOf (6 / 10000),
              eastOf (25 / 100000), eastOf (2 / 1000), eastOf (25 / 100000)]"
  have h1: "distinct (map id_Shop [shopHere])" by simp
  have h2: "shopHere \<in> set [shopHere]" by simp
  have ds: "calculateDistance (eastOf (25 / 100000)) (location shopHere) < 40"
           "40 \<le> calculateDistance (eastOf (6 / 10000)) (location shopHere)"
           "calculateDistance (eastOf (6 / 10000)) (location shopHere) \<le> 100"
           "calculateDistance (eastOf (2 / 1000)) (location shopHere) > 100"
    using pi_ge_two pi_less_4 by (simp_all add: location_examples calculateDistance_east)
  have ev: "fst (proximityAlerts (eastOf (25 / 100000)) [shopHere] {}) = {id_Shop shopHere}"
           "snd (proximityAlerts (eastOf (25 / 100000)) [shopHere] {}) = [shopHere]"
           "snd (proximityAlerts (eastOf (25 / 100000)) [shopHere] {id_Shop shopHere}) = []"
           "fst (proximityAlerts (eastOf (6 / 10000)) [shopHere] {id_Shop shopHere}) = {id_Shop shopHere}"
           "fst (proximityAlerts (eastOf (6 / 10000)) [shopHere] {}) = {}"
           "fst (proximityAlerts (eastOf (2 / 1000)) [shopHere] {id_Shop shopHere}) = {}"
           "snd (proximityAlerts (eastOf (2 / 1000)) [shopHere] {id_Shop shopHere}) = []"
    using ds by (simp_all add: proximityAlerts_def alertStep_def Let_def)
  have tr: "alertTrace [shopHere] ?ls {} = [[shopHere], [], [], [], [], [shopHere]]"
    by (rule alertTrace_example)
  from enter_alert_hysteresis[OF h1 h2, of "eastOf (25 / 100000)" "{}"]
  have "\<forall>ls i j. i < j \<and> j < length ls
              \<and> shopHere \<in> set (alertTrace [shopHere] ls {} ! i)
              \<and> shopHere \<in> set (alertTrace [shopHere] ls {} ! j) \<longrightarrow>
              (\<exists>k. i < k \<and> k < j \<and> calculateDistance (ls ! k) (location shopHere) > 100)"
    by blast
  from this[rule_format, of 0 5 ?ls] tr
  have ex: "\<exists>k. 0 < k \<and> k < 5 \<and> calculateDistance (?ls ! k) (location shopHere) > 100"
    by simp
  show ?thesis using h1 h2 ds ev tr ex by simp
qed

section \<open>Route recording: properties\<close>

lemma samplePath_stops: "stops (samplePath l r) = stops r"
  by (simp add: samplePath_def Let_def)

lemma samplePath_path:
  "path (samplePath l r) =
     (if path r = [] \<or> calculateDistance l (last (path r)) \<ge> 3 then path r @ [l] else path r)"
  by (simp add: samplePath_def Let_def)

lemma appendStop_path: "path (appendStop l nm now r) = path r"
  by (simp add: appendStop_def Let_def)

lemma appendStop_stops:
  "stops (appendStop l nm now r) =
     stops r @ [\<lparr>location_Stop = l, areaName = nm, stopNumber = length (stops r) + 1,
                 timestamp = now\<rparr>]"
  by (simp add: appendStop_def Let_def)

lemma recordUpdate_path:
  "path (fst (recordUpdate l now S As (r, n, anchor))) = path (samplePath l r)"
  by (simp add: recordUpdate_def Let_def appendStop_path split: option.split)

lemma recordUpdate_dwell:
  "calculateDistance l a < 15 \<Longrightarrow>
   recordUpdate l now S As (r, n, Some a) =
     (if n + 1 = 3 then appendStop l (stopAreaName l S As) now (samplePath l r)
      else samplePath l r, n + 1, Some a)"
  by (simp add: recordUpdate_def Let_def)

lemma recordUpdate_move:
  "\<not> calculateDistance l a < 15 \<Longrightarrow>
   recordUpdate l now S As (r, n, Some a) = (samplePath l r, 0, Some l)"
  by (simp add: recordUpdate_def Let_def)

lemma watchCallback_registry:
  "shops (watchCallback c now s) = shops s" "areas (watchCallback c now s) = areas s"
  "isTracking (watchCallback c now s) = isTracking s"
  "routes (watchCallback c now s) = routes s"
  by (simp_all add: watchCallback_def Let_def split: option.split prod.split)

lemma watchCallback_refs:
  "shopsRef (watchCallback c now s) = shopsRef s" "areasRef (watchCallback c now s) = areasRef s"
  by (simp_all add: shopsRef_def areasRef_def watchCallback_registry)

lemma watchCallback_idle:
  assumes "\<not> isTracking s \<or> activeRoute s = None"
  shows "activeRoute (watchCallback c now s) = activeRoute s"
    and "staticTimeCounterRef (watchCallback c now s) = staticTimeCounterRef s"
    and "lastStopCheckLocRef (watchCallback c now s) = lastStopCheckLocRef s"
  using assms by (auto simp add: watchCallback_def Let_def split: option.split prod.split)

lemma watchCallback_recording:
  assumes "isTracking s" "activeRoute s = Some r"
  shows "activeRoute (watchCallback c now s) =
           Some (fst (recordUpdate (newLocOf c s) now (shopsRef s) (areasRef s)
                        (r, staticTimeCounterRef s, lastStopCheckLocRef s)))"
    and "staticTimeCounterRef (watchCallback c now s) =
           fst (snd (recordUpdate (newLocOf c s) now (shopsRef s) (areasRef s)
                        (r, staticTimeCounterRef s, lastStopCheckLocRef s)))"
    and "lastStopCheckLocRef (watchCallback c now s) =
           snd (snd (recordUpdate (newLocOf c s) now (shopsRef s) (areasRef s)
                        (r, staticTimeCounterRef s, lastStopCheckLocRef s)))"
  using assms by (simp_all add: watchCallback_def Let_def split: prod.split)

lemma pathOf_watchCallback:
  assumes "isTracking s" "activeRoute s = Some r"
  shows "pathOf (watchCallback c now s) = path (samplePath (newLocOf c s) r)"
  using watchCallback_recording(1)[OF assms, of c now] by (simp add: pathOf_def recordUpdate_path)

lemma watchCallback_keeps_route:
  assumes "isTracking s" "activeRoute s = Some r"
  shows "\<exists>r'. activeRoute (watchCallback c now s) = Some r' \<and> path r' = path (samplePath (newLocOf c s) r)"
  using watchCallback_recording(1)[OF assms, of c now] by (simp add: recordUpdate_path)

lemma watchCallback_route_some:
  assumes "isTracking s" "activeRoute s = Some r"
  shows "\<exists>r'. activeRoute (watchCallback c now s) = Some r'"
  using watchCallback_recording(1)[OF assms, of c now] by simp

lemma watchRun_path_grows:
  "isTracking s \<Longrightarrow> activeRoute s = Some r \<Longrightarrow> \<exists>ys. pathOf (watchRun fs s) = path r @ ys"
proof (induction fs arbitrary: s r)
  case Nil
  then show ?case by (simp add: pathOf_def)
next
  case (Cons f fs)
  obtain c now where f: "f = (c, now)" by (cases f)
  from watchCallback_keeps_route[OF Cons.prems, of c now] obtain r' where
    r': "activeRoute (watchCallback c now s) = Some r'"
    and p: "path r' = path (samplePath (newLocOf c s) r)" by blast
  have tr: "isTracking (watchCallback c now s)" using Cons.prems by (simp add: watchCallback_registry)
  from Cons.IH[OF tr r'] obtain ys where "pathOf (watchRun fs (watchCallback c now s)) = path r' @ ys"
    by blast
  then show ?case using f p by (auto simp add: samplePath_path)
qed

lemma watchRun_jitter:
  "isTracking s \<Longrightarrow> activeRoute s = Some r \<Longrightarrow> path r \<noteq> [] \<Longrightarrow> allJitter fs s \<Longrightarrow>
   pathOf (watchRun fs s) = path r"
proof (induction fs arbitrary: s r)
  case Nil
  then show ?case by (simp add: pathOf_def)
next
  case (Cons f fs)
  obtain c now where f: "f = (c, now)" by (cases f)
  from Cons.prems f have j: "calculateDistance (newLocOf c s) (last (path r)) < 3"
    and rest: "allJitter fs (watchCallback c now s)" by (simp_all add: pathOf_def)
  from watchCallback_keeps_route[OF Cons.prems(1,2), of c now] obtain r' where
    r': "activeRoute (watchCallback c now s) = Some r'"
    and p: "path r' = path (samplePath (newLocOf c s) r)" by blast
  have p': "path r' = path r" using p j Cons.prems(3) by (simp add: samplePath_path)
  have tr: "isTracking (watchCallback c now s)" using Cons.prems by (simp add: watchCallback_registry)
  from Cons.IH[OF tr r' _ rest] p' Cons.prems(3) f show ?case by simp
qed

lemma watchRun_recording:
  "isTracking s \<Longrightarrow> activeRoute s = Some r \<Longrightarrow> recording (watchRun fs s)"
proof (induction fs arbitrary: s r)
  case Nil
  then show ?case by (simp add: recording_def)
next
  case (Cons f fs)
  obtain c now where f: "f = (c, now)" by (cases f)
  from watchCallback_route_some[OF Cons.prems, of c now] obtain r' where
    r': "activeRoute (watchCallback c now s) = Some r'" by blast
  have tr: "isTracking (watchCallback c now s)" using Cons.prems by (simp add: watchCallback_registry)
  from Cons.IH[OF tr r'] f show ?case by simp
qed

lemma toggleTracking_start:
  assumes "\<not> isTracking s"
  shows "isTracking (toggleTracking newId today now s)"
    and "activeRoute (toggleTracking newId today now s) =
           Some \<lparr>id_Route = newId, date = today, day = None, customAreaName = None,
                  areaId_Route = (if selectedAreaId s \<noteq> ''all'' then selectedAreaId s
                                  else ''General''),
                  path = [startLoc s], stops = [], startTime = now, endTime = None,
                  isArchived_Route = Some False\<rparr>"
    and "staticTimeCounterRef (toggleTracking newId today now s) = 0"
    and "lastStopCheckLocRef (toggleTracking newId today now s) = Some (startLoc s)"
    and "kalmanStateRef (toggleTracking newId today now s) =
           \<lparr>lat_K = lat (startLoc s), lng_K = lng (startLoc s), variance = - 1\<rparr>"
    and "shops (toggleTracking newId today now s) = shops s"
    and "areas (toggleTracking newId today now s) = areas s"
    and "routes (toggleTracking newId today now s) = routes s"
  using assms by (simp_all add: toggleTracking_def Let_def)

lemma idleState_fields:
  "\<not> isTracking idleState" "startLoc idleState = eastOf 0" "currentLocation idleState = Some (eastOf 0)"
  by (simp_all add: idleState_def startLoc_def)

lemma eastOf_simps: "lat (eastOf x) = 0" "lng (eastOf x) = x"
  by (simp_all add: eastOf_def)

lemma newLocOf_fixAt_reset:
  "variance (kalmanStateRef s) < 0 \<Longrightarrow> newLocOf (fixAt x acc) s = eastOf x"
  by (simp add: newLocOf_reset fixAt_def eastOf_def)

text \<open>
  C3. While recording, a callback appends the smoothed location to the path exactly when
  its distance to the last path point is at least 3m (the path of a session is never
  empty: it is seeded with one point at the start); over every run of callbacks the old
  path is a prefix of the new one, so the path never shrinks; over every run whose
  smoothed locations are each less than 3m from the last path point the path stays as it
  was, of length 1 after a start; and after a start every run of callbacks is still
  recording, with a path that is not empty.
\<close>

theorem path_sampling:
  "(isTracking s \<and> activeRoute s = Some r \<longrightarrow>
        (path r \<noteq> [] \<longrightarrow>
           pathOf (watchCallback c now s) =
             (if calculateDistance (newLocOf c s) (last (path r)) \<ge> 3
              then path r @ [newLocOf c s] else path r))
      \<and> (\<exists>ys. pathOf (watchRun fs s) = path r @ ys)
      \<and> (path r \<noteq> [] \<and> allJitter fs s \<longrightarrow> pathOf (watchRun fs s) = path r))
   \<and> (\<not> isTracking s \<longrightarrow>
        pathOf (toggleTracking newId today now s) = [startLoc s]
      \<and> recording (watchRun fs (toggleTracking newId today now s))
      \<and> pathOf (watchRun fs (toggleTracking newId today now s)) \<noteq> []
      \<and> (allJitter fs (toggleTracking newId today now s) \<longrightarrow>
           length (pathOf (watchRun fs (toggleTracking newId today now s))) = 1))"
proof -
  have a: "pathOf (watchCallback c now s) =
             (if calculateDistance (newLocOf c s) (last (path r)) \<ge> 3
              then path r @ [newLocOf c s] else path r)"
    if "isTracking s" "activeRoute s = Some r" "path r \<noteq> []"
    using that by (simp add: pathOf_watchCallback samplePath_path)
  have b: "\<exists>ys. pathOf (watchRun fs s) = path r @ ys"
    if "isTracking s" "activeRoute s = Some r"
    using that by (rule watchRun_path_grows)
  have c: "pathOf (watchRun fs s) = path r"
    if "isTracking s" "activeRoute s = Some r" "path r \<noteq> []" "allJitter fs s"
    using that by (rule watchRun_jitter)
  have d: "pathOf (toggleTracking newId today now s) = [startLoc s]" if "\<not> isTracking s"
    using toggleTracking_start(2)[OF that, of newId today now] by (simp add: pathOf_def)
  have e: "length (pathOf (watchRun fs (toggleTracking newId today now s))) = 1"
    if h: "\<not> isTracking s" "allJitter fs (toggleTracking newId today now s)"
    using watchRun_jitter[OF toggleTracking_start(1)[OF h(1)] toggleTracking_start(2)[OF h(1)] _ h(2)]
    by simp
  have f: "recording (watchRun fs (toggleTracking newId today now s))" if h: "\<not> isTracking s"
    using watchRun_recording[OF toggleTracking_start(1)[OF h, of newId today now]
            toggleTracking_start(2)[OF h, of newId today now]] .
  have g: "pathOf (watchRun fs (toggleTracking newId today now s)) \<noteq> []" if h: "\<not> isTracking s"
    using watchRun_path_grows[OF toggleTracking_start(1)[OF h, of newId today now]
            toggleTracking_start(2)[OF h, of newId today now], of fs]
    by auto
  show ?thesis using a b c d e f g by blast
qed

theorem path_sampling_witness:
  "\<not> isTracking idleState
   \<and> pathOf (toggleTracking ''r1'' ''03/11/2026'' 1000 idleState) = [eastOf 0]
   \<and> calculateDistance (eastOf (1 / 100000)) (eastOf 0) < 3
   \<and> pathOf (watchCallback (fixAt (1 / 100000) 5) 2000
               (toggleTracking ''r1'' ''03/11/2026'' 1000 idleState)) = [eastOf 0]
   \<and> 3 \<le> calculateDistance (eastOf (5 / 100000)) (eastOf 0)
   \<and> pathOf (watchCallback (fixAt (5 / 100000) 5) 2000
               (toggleTracking ''r1'' ''03/11/2026'' 1000 idleState))
       = [eastOf 0, eastOf (5 / 100000)]
   \<and> allJitter [(fixAt 0 5, 2000), (fixAt (1 / 100000) 5, 3000)]
        (toggleTracking ''r1'' ''03/11/2026'' 1000 idleState)
   \<and> length (pathOf (watchRun [(fixAt 0 5, 2000), (fixAt (1 / 100000) 5, 3000)]
                 (toggleTracking ''r1'' ''03/11/2026'' 1000 idleState))) = 1"
proof -
  let ?s1 = "toggleTracking ''r1'' ''03/11/2026'' 1000 idleState"
  let ?r1 = "\<lparr>id_Route = ''r1'', date = ''03/11/2026'', day = None, customAreaName = None,
              areaId_Route = ''General'', path = [eastOf 0], stops = [], startTime = 1000,
              endTime = None, isArchived_Route = Some False\<rparr>"
  let ?fs = "[(fixAt 0 5, 2000), (fixAt (1 / 100000) 5, 3000)]"
  note idle = idleState_fields(1)
  have tr: "isTracking ?s1" using idle by (rule toggleTracking_start(1))
  have r1: "activeRoute ?s1 = Some ?r1"
    using toggleTracking_start(2)[OF idle, of "''r1''" "''03/11/2026''" 1000]
    by (simp add: idleState_fields) (simp add: idleState_def)
  have k1: "kalmanStateRef ?s1 = \<lparr>lat_K = 0, lng_K = 0, variance = - 1\<rparr>"
    using toggleTracking_start(5)[OF idle, of "''r1''" "''03/11/2026''" 1000]
    by (simp add: idleState_fields eastOf_simps)
  have n1: "newLocOf (fixAt x 5) ?s1 = eastOf x" for x
    by (simp add: newLocOf_fixAt_reset k1)
  have d1: "calculateDistance (eastOf (1 / 100000)) (eastOf 0) < 3"
    and d2: "3 \<le> calculateDistance (eastOf (5 / 100000)) (eastOf 0)"
    using pi_ge_two pi_less_4 by (simp_all add: calculateDistance_east)
  have p1: "pathOf ?s1 = [eastOf 0]" using r1 by (simp add: pathOf_def)
  let ?s2 = "watchCallback (fixAt 0 5) 2000 ?s1"
  have k2: "kalmanStateRef ?s2 = \<lparr>lat_K = 0, lng_K = 0, variance = 25\<rparr>"
    by (simp add: watchCallback_kalman smooth_def k1 first_update_raw fixAt_simps
          accuracyOrDefault_def)
  have p2: "pathOf ?s2 = [eastOf 0]"
    using pathOf_watchCallback[OF tr r1, of "fixAt 0 5" 2000]
    by (simp add: samplePath_path n1 calculateDistance_same)
  have n2: "newLocOf (fixAt (1 / 100000) 5) ?s2 = eastOf (25000001 / 5000000100000)"
    by (simp add: newLocOf_def smooth_def k2 applyKalmanFilter_def Let_def fixAt_simps
          accuracyOrDefault_def eastOf_def)
  have d3: "calculateDistance (eastOf (25000001 / 5000000100000)) (eastOf 0) < 3"
    using pi_less_4 by (simp add: calculateDistance_east)
  have j: "allJitter ?fs ?s1"
    by (simp add: p1 p2 n1 n2 d3 calculateDistance_same)
  show ?thesis
    using idle path_sampling[of ?s1 ?r1 "fixAt (1 / 100000) 5" 2000 ?fs]
          path_sampling[of ?s1 ?r1 "fixAt (5 / 100000) 5" 2000 ?fs]
          path_sampling[of idleState ?r1 "fixAt 0 5" 1000 ?fs "''r1''" "''03/11/2026''"]
          tr r1 n1 d1 d2 j
    by (simp add: idleState_fields)
qed

lemma nearestShop_iff:
  "nearestShop l registry x \<longleftrightarrow>
     (\<exists>i<length registry. registry ! i = x
        \<and> (\<forall>j<length registry.
               calculateDistance l (location x) \<le> calculateDistance l (location (registry ! j)))
        \<and> (\<forall>j<i. calculateDistance l (location x)
                      < calculateDistance l (location (registry ! j))))"
  by (auto simp add: nearestShop_def list_ex_iff list_all_iff)

lemma nearestShop_hd:
  assumes "S \<noteq> []"
  shows "nearestShop l S
           (fst (hd (sort_key snd (map (\<lambda>s. (s, calculateDistance l (location s))) S))))"
proof -
  let ?g = "\<lambda>s. (s, calculateDistance l (location s))"
  let ?xs = "map ?g S"
  have ne: "filter (\<lambda>_. True) ?xs \<noteq> []" using assms by simp
  from hd_sort_filter_first_min[OF ne, of snd] obtain i where i: "i < length S"
    and hi: "?xs ! i = hd (sort_key snd ?xs)"
    and mn: "\<forall>j<length S. snd (?xs ! i) \<le> snd (?xs ! j)"
    and fs: "\<forall>j<i. snd (?xs ! i) < snd (?xs ! j)" by auto
  have x: "fst (hd (sort_key snd ?xs)) = S ! i" using hi[symmetric] i by simp
  have "\<forall>j<length S. calculateDistance l (location (S ! i)) \<le> calculateDistance l (location (S ! j))"
    using mn i by simp
  moreover have "\<forall>j<i. calculateDistance l (location (S ! i)) < calculateDistance l (location (S ! j))"
    using fs i by simp
  ultimately show ?thesis unfolding nearestShop_iff x using i by blast
qed

lemma nearestShop_unique:
  assumes "nearestShop l S x" "nearestShop l S y"
  shows "x = y"
proof -
  let ?d = "\<lambda>s. calculateDistance l (location s)"
  from assms(1) obtain i where i: "i < length S" "S ! i = x"
    and mx: "\<forall>j<length S. ?d x \<le> ?d (S ! j)" and fx: "\<forall>j<i. ?d x < ?d (S ! j)"
    unfolding nearestShop_iff by blast
  from assms(2) obtain k where k: "k < length S" "S ! k = y"
    and my: "\<forall>j<length S. ?d y \<le> ?d (S ! j)" and fy: "\<forall>j<k. ?d y < ?d (S ! j)"
    unfolding nearestShop_iff by blast
  have "\<not> i < k"
  proof
    assume "i < k"
    with fy i have "?d y < ?d x" by auto
    moreover from mx k have "?d x \<le> ?d y" by auto
    ultimately show False by simp
  qed
  moreover have "\<not> k < i"
  proof
    assume "k < i"
    with fx k have "?d x < ?d y" by auto
    moreover from my i have "?d y \<le> ?d x" by auto
    ultimately show False by simp
  qed
  ultimately have "i = k" by simp
  with i k show ?thesis by simp
qed

lemma stopAreaName_empty: "stopAreaName l [] As = ''Field Point''"
  by (simp add: stopAreaName_def)

lemma stopAreaName_nearest:
  assumes "nearestShop l S x"
  shows "stopAreaName l S As =
           (if calculateDistance l (location x) < 100
            then (case find (\<lambda>a. id_Area a = areaId x) As of
                    None \<Rightarrow> ''Point''
                  | Some a \<Rightarrow> if name_Area a = [] then ''Point'' else name_Area a)
            else ''Field Point'')"
proof -
  let ?g = "\<lambda>s. (s, calculateDistance l (location s))"
  from assms have ne: "S \<noteq> []" by (auto simp add: nearestShop_iff)
  then have sne: "sort_key snd (map ?g S) \<noteq> []" by (simp add: sort_key_eq_Nil)
  then obtain near rest where sr: "sort_key snd (map ?g S) = near # rest"
    by (cases "sort_key snd (map ?g S)") auto
  then have "near = hd (sort_key snd (map ?g S))" by simp
  with nearestShop_hd[OF ne, of l] have nn: "nearestShop l S (fst near)" by simp
  have fx: "fst near = x" using nearestShop_unique[OF nn assms] .
  have "near \<in> set (sort_key snd (map ?g S))" using sr by simp
  then have "near \<in> set (map ?g S)" by simp
  then have sx: "snd near = calculateDistance l (location (fst near))" by auto
  show ?thesis
    unfolding stopAreaName_def Let_def sr using fx sx by simp
qed

lemma shopsRef_area_found:
  assumes "x \<in> set (shopsRef s)"
  shows "\<exists>a. find (\<lambda>a. id_Area a = areaId x) (areasRef s) = Some a
             \<and> id_Area a = areaId x \<and> isArchived_Area a \<noteq> Some True"
proof -
  from assms have "list_ex (\<lambda>a. id_Area a = areaId x) (activeAreas (areas s))"
    by (simp add: shopsRef_def activeShops_def)
  then have "find (\<lambda>a. id_Area a = areaId x) (areasRef s) \<noteq> None"
    by (auto simp add: areasRef_def find_None_iff list_ex_iff)
  then obtain a where a: "find (\<lambda>a. id_Area a = areaId x) (areasRef s) = Some a" by auto
  then have "id_Area a = areaId x \<and> a \<in> set (areasRef s)"
    by (auto simp add: find_Some_iff)
  then show ?thesis using a by (auto simp add: areasRef_def activeAreas_def)
qed

lemma nearestShop_mem: "nearestShop l S x \<Longrightarrow> x \<in> set S"
  by (auto simp add: nearestShop_iff)

lemma watchCallback_dwell:
  assumes "isTracking s" "activeRoute s = Some r" "lastStopCheckLocRef s = Some a"
    and "calculateDistance (newLocOf c s) a < 15"
  shows "staticTimeCounterRef (watchCallback c now s) = staticTimeCounterRef s + 1"
    and "lastStopCheckLocRef (watchCallback c now s) = Some a"
    and "stopsOf (watchCallback c now s) =
           (if staticTimeCounterRef s + 1 = 3
            then stops r @ [\<lparr>location_Stop = newLocOf c s,
                              areaName = stopAreaName (newLocOf c s) (shopsRef s) (areasRef s),
                              stopNumber = length (stops r) + 1, timestamp = now\<rparr>]
            else stops r)"
  using watchCallback_recording[OF assms(1,2), of c now] assms(3,4)
  by (simp_all add: recordUpdate_dwell stopsOf_def appendStop_stops samplePath_stops)

lemma watchCallback_move:
  assumes "isTracking s" "activeRoute s = Some r" "lastStopCheckLocRef s = Some a"
    and "\<not> calculateDistance (newLocOf c s) a < 15"
  shows "staticTimeCounterRef (watchCallback c now s) = 0"
    and "lastStopCheckLocRef (watchCallback c now s) = Some (newLocOf c s)"
    and "stopsOf (watchCallback c now s) = stops r"
  using watchCallback_recording[OF assms(1,2), of c now] assms(3,4)
  by (simp_all add: recordUpdate_move stopsOf_def samplePath_stops)

lemma watchRun_dwell:
  "isTracking s \<Longrightarrow> activeRoute s = Some r \<Longrightarrow> lastStopCheckLocRef s = Some a \<Longrightarrow>
   allDwell fs s \<Longrightarrow>
   staticTimeCounterRef (watchRun fs s) = staticTimeCounterRef s + length fs
   \<and> lastStopCheckLocRef (watchRun fs s) = Some a
   \<and> length (stopsOf (watchRun fs s)) =
       length (stops r)
       + (if staticTimeCounterRef s < 3 \<and> 3 \<le> staticTimeCounterRef s + length fs then 1 else 0)"
proof (induction fs arbitrary: s r)
  case Nil
  then show ?case by (simp add: stopsOf_def)
next
  case (Cons f fs)
  obtain c now where f: "f = (c, now)" by (cases f)
  let ?s' = "watchCallback c now s"
  from Cons.prems f have d: "calculateDistance (newLocOf c s) a < 15"
    and rest: "allDwell fs ?s'" by simp_all
  note w = watchCallback_dwell[OF Cons.prems(1,2,3) d, of now]
  from watchCallback_route_some[OF Cons.prems(1,2), of c now] obtain r' where
    r': "activeRoute ?s' = Some r'" by blast
  have tr: "isTracking ?s'" using Cons.prems(1) by (simp add: watchCallback_registry)
  have st: "stops r' = stopsOf ?s'" using r' by (simp add: stopsOf_def)
  from Cons.IH[OF tr r' w(2) rest] show ?case
    using f by (auto simp add: w(1) st w(3))
qed


lemma atRest_newLoc: "atRest s \<Longrightarrow> newLocOf (fixAt 0 acc) s = eastOf 0"
  by (simp add: atRest_def newLocOf_def smooth_def applyKalmanFilter_def Let_def fixAt_simps
        eastOf_def)

lemma atRest_callback:
  assumes "atRest s"
  shows "atRest (watchCallback (fixAt 0 acc) now s)"
    and "staticTimeCounterRef (watchCallback (fixAt 0 acc) now s) = staticTimeCounterRef s + 1"
    and "stopsOf (watchCallback (fixAt 0 acc) now s) =
           (if staticTimeCounterRef s + 1 = 3
            then stopsOf s @ [\<lparr>location_Stop = eastOf 0,
                                areaName = stopAreaName (eastOf 0) (shopsRef s) (areasRef s),
                                stopNumber = length (stopsOf s) + 1, timestamp = now\<rparr>]
            else stopsOf s)"
proof -
  from assms obtain r where tr: "isTracking s" and r: "activeRoute s = Some r"
    and a: "lastStopCheckLocRef s = Some (eastOf 0)"
    and k: "lat_K (kalmanStateRef s) = 0" "lng_K (kalmanStateRef s) = 0"
    by (auto simp add: atRest_def)
  have n: "newLocOf (fixAt 0 acc) s = eastOf 0" using assms by (rule atRest_newLoc)
  have d: "calculateDistance (newLocOf (fixAt 0 acc) s) (eastOf 0) < 15"
    by (simp add: n calculateDistance_same)
  note w = watchCallback_dwell[OF tr r a d, of now]
  from watchCallback_route_some[OF tr r, of "fixAt 0 acc" now]
  have r': "activeRoute (watchCallback (fixAt 0 acc) now s) \<noteq> None" by auto
  have k': "lat_K (kalmanStateRef (watchCallback (fixAt 0 acc) now s)) = 0"
           "lng_K (kalmanStateRef (watchCallback (fixAt 0 acc) now s)) = 0"
    using k by (simp_all add: watchCallback_kalman smooth_def applyKalmanFilter_def Let_def
                  fixAt_simps)
  show "atRest (watchCallback (fixAt 0 acc) now s)"
    using tr r' w(2) k' by (simp add: atRest_def watchCallback_registry)
  show "staticTimeCounterRef (watchCallback (fixAt 0 acc) now s) = staticTimeCounterRef s + 1"
    by (rule w(1))
  show "stopsOf (watchCallback (fixAt 0 acc) now s) =
           (if staticTimeCounterRef s + 1 = 3
            then stopsOf s @ [\<lparr>location_Stop = eastOf 0,
                                areaName = stopAreaName (eastOf 0) (shopsRef s) (areasRef s),
                                stopNumber = length (stopsOf s) + 1, timestamp = now\<rparr>]
            else stopsOf s)"
    using w(3) r n by (simp add: stopsOf_def)
qed

lemma atRest_allDwell: "atRest s \<Longrightarrow> allDwell (restFixes ts) s"
proof (induction ts arbitrary: s)
  case Nil
  then show ?case by (simp add: restFixes_def)
next
  case (Cons t ts)
  from Cons.prems have a: "lastStopCheckLocRef s = Some (eastOf 0)" by (simp add: atRest_def)
  have "allDwell (restFixes ts) (watchCallback (fixAt 0 5) t s)"
    using Cons.IH[OF atRest_callback(1)[OF Cons.prems, of 5 t]] .
  then show ?case
    using a by (simp add: restFixes_def atRest_newLoc[OF Cons.prems] calculateDistance_same)
qed

lemma toggleTracking_atRest:
  assumes "\<not> isTracking s" "startLoc s = eastOf 0"
  shows "atRest (toggleTracking newId today now s)"
    and "stopsOf (toggleTracking newId today now s) = []"
    and "shopsRef (toggleTracking newId today now s) = shopsRef s"
    and "areasRef (toggleTracking newId today now s) = areasRef s"
  using toggleTracking_start[OF assms(1), of newId today now] assms(2)
  by (simp_all add: atRest_def stopsOf_def shopsRef_def areasRef_def eastOf_simps)

lemma unnamedState_fields:
  "\<not> isTracking unnamedState" "startLoc unnamedState = eastOf 0"
  "shopsRef unnamedState = [shopCorner]" "areasRef unnamedState = [areaUnnamed]"
  by (simp_all add: unnamedState_def idleState_def startLoc_def shopsRef_def areasRef_def
        activeShops_def activeAreas_def areaUnnamed_def shopCorner_def shopAt_def)

lemma shopAlpha_fields:
  "isArchived_Shop shopAlpha = None" "areaId shopAlpha = ''a1''" "location shopAlpha = eastOf 0"
  by (simp_all add: shopAlpha_def shopAt_def)

lemma idleState_refs:
  "shopsRef idleState = [shopAlpha]"
  "areasRef idleState = [areaNorth]"
  by (simp_all add: idleState_def shopsRef_def areasRef_def
        activeShops_def activeAreas_def areaNorth_def shopAlpha_fields)

lemma stopAreaName_examples:
  "stopAreaName (eastOf 0) [shopCorner] [areaUnnamed] = ''Point''"
  "stopAreaName (eastOf 0) [shopAlpha] [areaNorth] = ''Uttara''"
  "stopAreaName (eastOf 0) [shopFar] [areaNorth] = ''Field Point''"
  using pi_ge_two
  by (simp_all add: stopAreaName_def shopCorner_def shopFar_def shopAt_location shopAt_def
        shopAlpha_fields areaUnnamed_def areaNorth_def calculateDistance_same
        calculateDistance_east)

lemma stops_at_rest_unnamed:
  "stopsOf (watchRun (restFixes [2000, 3000, 4000])
             (toggleTracking ''r1'' ''03/11/2026'' 1000 unnamedState))
   = [\<lparr>location_Stop = eastOf 0, areaName = ''Point'', stopNumber = 1, timestamp = 4000\<rparr>]"
  by (simp add: restFixes_def atRest_callback watchCallback_refs
        toggleTracking_atRest[OF unnamedState_fields(1,2)] toggleTracking_start(3)
        unnamedState_fields stopAreaName_examples)

text \<open>
  C1, as stated, fails in the area name: when the nearest shop is within 100m and the name
  of its area is empty, the stop is named ''Point'', not the (empty) area name. Here a
  session starts at the origin, where a shop of an area with an empty name stands, and
  three fixes at the origin follow.
\<close>

theorem stop_area_name_counterexample:
  "stopsOf (watchRun (restFixes [2000, 3000, 4000])
             (toggleTracking ''r1'' ''03/11/2026'' 1000 unnamedState))
     = [\<lparr>location_Stop = eastOf 0, areaName = ''Point'', stopNumber = 1, timestamp = 4000\<rparr>]
   \<and> nearestShop (eastOf 0) (shopsRef unnamedState) shopCorner
   \<and> calculateDistance (eastOf 0) (location shopCorner) < 100
   \<and> find (\<lambda>a. id_Area a = areaId shopCorner) (areasRef unnamedState) = Some areaUnnamed
   \<and> name_Area areaUnnamed = []"
proof -
  have "nearestShop (eastOf 0) (shopsRef unnamedState) shopCorner"
    by (simp add: nearestShop_iff unnamedState_fields)
  moreover have "calculateDistance (eastOf 0) (location shopCorner) < 100"
    by (simp add: shopCorner_def shopAt_location calculateDistance_same)
  moreover have "find (\<lambda>a. id_Area a = areaId shopCorner) (areasRef unnamedState) = Some areaUnnamed"
    by (simp add: unnamedState_fields shopCorner_def shopAt_def areaUnnamed_def)
  moreover have "name_Area areaUnnamed = []" by (simp add: areaUnnamed_def)
  ultimately show ?thesis using stops_at_rest_unnamed by simp
qed

text \<open>
  C1, amended. While recording with a dwell anchor: an update whose smoothed location is
  less than 15m from the anchor increments the counter and keeps the anchor, and when the
  counter reaches exactly 3 it appends exactly one stop with stopNumber = stops.length + 1,
  timestamp = now and the area name below, and otherwise appends nothing; an update at
  15m or more resets the counter to 0, moves the anchor and appends nothing; over a run of
  updates all within 15m of the anchor the counter is never reset and the number of stops
  grows by one if the counter passes 3 during the run and by none otherwise. The area name
  is ''Field Point'' when there is no shop or the nearest shop (the first of the nearest)
  is at 100m or more; otherwise it is the name of the first active area with the shop's
  area id, or ''Point'' when that name is empty.
\<close>

theorem dwell_stop_detection:
  "(isTracking s \<and> activeRoute s = Some r \<and> lastStopCheckLocRef s = Some anchor \<longrightarrow>
      (calculateDistance (newLocOf c s) anchor < 15 \<longrightarrow>
         staticTimeCounterRef (watchCallback c now s) = staticTimeCounterRef s + 1
       \<and> lastStopCheckLocRef (watchCallback c now s) = Some anchor
       \<and> stopsOf (watchCallback c now s) =
           (if staticTimeCounterRef s + 1 = 3
            then stops r @ [\<lparr>location_Stop = newLocOf c s,
                              areaName = stopAreaName (newLocOf c s) (shopsRef s) (areasRef s),
                              stopNumber = length (stops r) + 1, timestamp = now\<rparr>]
            else stops r))
    \<and> (\<not> calculateDistance (newLocOf c s) anchor < 15 \<longrightarrow>
         staticTimeCounterRef (watchCallback c now s) = 0
       \<and> lastStopCheckLocRef (watchCallback c now s) = Some (newLocOf c s)
       \<and> stopsOf (watchCallback c now s) = stops r)
    \<and> (allDwell fs s \<longrightarrow>
         staticTimeCounterRef (watchRun fs s) = staticTimeCounterRef s + length fs
       \<and> lastStopCheckLocRef (watchRun fs s) = Some anchor
       \<and> length (stopsOf (watchRun fs s)) =
           length (stops r)
           + (if staticTimeCounterRef s < 3 \<and> 3 \<le> staticTimeCounterRef s + length fs
              then 1 else 0)))
   \<and> (shopsRef s = [] \<longrightarrow> stopAreaName l (shopsRef s) (areasRef s) = ''Field Point'')
   \<and> (nearestShop l (shopsRef s) x \<longrightarrow>
        (\<exists>a. find (\<lambda>a. id_Area a = areaId x) (areasRef s) = Some a
           \<and> stopAreaName l (shopsRef s) (areasRef s) =
               (if calculateDistance l (location x) < 100
                then (if name_Area a = [] then ''Point'' else name_Area a)
                else ''Field Point'')))"
proof -
  have a: "staticTimeCounterRef (watchCallback c now s) = staticTimeCounterRef s + 1
       \<and> lastStopCheckLocRef (watchCallback c now s) = Some anchor
       \<and> stopsOf (watchCallback c now s) =
           (if staticTimeCounterRef s + 1 = 3
            then stops r @ [\<lparr>location_Stop = newLocOf c s,
                              areaName = stopAreaName (newLocOf c s) (shopsRef s) (areasRef s),
                              stopNumber = length (stops r) + 1, timestamp = now\<rparr>]
            else stops r)"
    if "isTracking s" "activeRoute s = Some r" "lastStopCheckLocRef s = Some anchor"
       "calculateDistance (newLocOf c s) anchor < 15"
    using watchCallback_dwell[OF that, of now] by simp
  have b: "staticTimeCounterRef (watchCallback c now s) = 0
       \<and> lastStopCheckLocRef (watchCallback c now s) = Some (newLocOf c s)
       \<and> stopsOf (watchCallback c now s) = stops r"
    if "isTracking s" "activeRoute s = Some r" "lastStopCheckLocRef s = Some anchor"
       "\<not> calculateDistance (newLocOf c s) anchor < 15"
    using watchCallback_move[OF that, of now] by simp
  have c: "staticTimeCounterRef (watchRun fs s) = staticTimeCounterRef s + length fs
       \<and> lastStopCheckLocRef (watchRun fs s) = Some anchor
       \<and> length (stopsOf (watchRun fs s)) =
           length (stops r)
           + (if staticTimeCounterRef s < 3 \<and> 3 \<le> staticTimeCounterRef s + length fs
              then 1 else 0)"
    if "isTracking s" "activeRoute s = Some r" "lastStopCheckLocRef s = Some anchor"
       "allDwell fs s"
    using that by (rule watchRun_dwell)
  have d: "stopAreaName l (shopsRef s) (areasRef s) = ''Field Point''" if "shopsRef s = []"
    using that by (simp add: stopAreaName_empty)
  have e: "\<exists>a. find (\<lambda>a. id_Area a = areaId x) (areasRef s) = Some a
           \<and> stopAreaName l (shopsRef s) (areasRef s) =
               (if calculateDistance l (location x) < 100
                then (if name_Area a = [] then ''Point'' else name_Area a)
                else ''Field Point'')"
    if h: "nearestShop l (shopsRef s) x"
  proof -
    from shopsRef_area_found[OF nearestShop_mem[OF h]] obtain a where
      "find (\<lambda>a. id_Area a = areaId x) (areasRef s) = Some a" by blast
    then show ?thesis using stopAreaName_nearest[OF h, of "areasRef s"] by simp
  qed
  show ?thesis using a b c d e by blast
qed

theorem dwell_stop_detection_witness:
  "isTracking (toggleTracking ''r1'' ''03/11/2026'' 1000 idleState)
   \<and> lastStopCheckLocRef (toggleTracking ''r1'' ''03/11/2026'' 1000 idleState) = Some (eastOf 0)
   \<and> allDwell (restFixes [2000, 3000, 4000, 5000])
        (toggleTracking ''r1'' ''03/11/2026'' 1000 idleState)
   \<and> stopsOf (watchRun (restFixes [2000, 3000])
                (toggleTracking ''r1'' ''03/11/2026'' 1000 idleState)) = []
   \<and> stopsOf (watchRun (restFixes [2000, 3000, 4000])
                (toggleTracking ''r1'' ''03/11/2026'' 1000 idleState))
       = [\<lparr>location_Stop = eastOf 0, areaName = ''Uttara'', stopNumber = 1, timestamp = 4000\<rparr>]
   \<and> stopsOf (watchRun (restFixes [2000, 3000, 4000, 5000])
                (toggleTracking ''r1'' ''03/11/2026'' 1000 idleState))
       = [\<lparr>location_Stop = eastOf 0, areaName = ''Uttara'', stopNumber = 1, timestamp = 4000\<rparr>]
   \<and> staticTimeCounterRef (watchRun (restFixes [2000, 3000, 4000, 5000])
                (toggleTracking ''r1'' ''03/11/2026'' 1000 idleState)) = 4
   \<and> length (stopsOf (watchRun (restFixes [2000, 3000, 4000, 5000])
                (toggleTracking ''r1'' ''03/11/2026'' 1000 idleState))) = 1
   \<and> \<not> calculateDistance (eastOf (25 / 100000)) (eastOf 0) < 15
   \<and> staticTimeCounterRef (watchCallback (fixAt (25 / 100000) 5) 2000
        (toggleTracking ''r1'' ''03/11/2026'' 1000 idleState)) = 0
   \<and> lastStopCheckLocRef (watchCallback (fixAt (25 / 100000) 5) 2000
        (toggleTracking ''r1'' ''03/11/2026'' 1000 idleState)) = Some (eastOf (25 / 100000))
   \<and> nearestShop (eastOf 0) (shopsRef idleState) shopAlpha
   \<and> stopAreaName (eastOf 0) (shopsRef idleState) (areasRef idleState) = ''Uttara''"
proof -
  let ?s1 = "toggleTracking ''r1'' ''03/11/2026'' 1000 idleState"
  let ?r1 = "\<lparr>id_Route = ''r1'', date = ''03/11/2026'', day = None, customAreaName = None,
              areaId_Route = ''General'', path = [eastOf 0], stops = [], startTime = 1000,
              endTime = None, isArchived_Route = Some False\<rparr>"
  let ?sh = "shopAlpha"
  note idle = idleState_fields(1)
  note rest = toggleTracking_atRest[OF idleState_fields(1,2), of "''r1''" "''03/11/2026''" 1000]
  have tr: "isTracking ?s1" using idle by (rule toggleTracking_start(1))
  have r1: "activeRoute ?s1 = Some ?r1"
    using toggleTracking_start(2)[OF idle, of "''r1''" "''03/11/2026''" 1000]
    by (simp add: idleState_fields) (simp add: idleState_def)
  have an: "lastStopCheckLocRef ?s1 = Some (eastOf 0)"
    using toggleTracking_start(4)[OF idle, of "''r1''" "''03/11/2026''" 1000]
    by (simp add: idleState_fields)
  have n0: "staticTimeCounterRef ?s1 = 0" using idle by (rule toggleTracking_start(3))
  have k1: "variance (kalmanStateRef ?s1) < 0"
    using toggleTracking_start_kalman[OF idle, of "''r1''" "''03/11/2026''" 1000] by simp
  have nl: "newLocOf (fixAt (25 / 100000) 5) ?s1 = eastOf (25 / 100000)"
    using k1 by (rule newLocOf_fixAt_reset)
  have dw: "allDwell (restFixes [2000, 3000, 4000, 5000]) ?s1"
    using rest(1) by (rule atRest_allDwell)
  have far: "\<not> calculateDistance (eastOf (25 / 100000)) (eastOf 0) < 15"
    using pi_ge_two by (simp add: calculateDistance_east)
  have ev: "stopsOf (watchRun (restFixes [2000, 3000]) ?s1) = []"
       "stopsOf (watchRun (restFixes [2000, 3000, 4000]) ?s1)
         = [\<lparr>location_Stop = eastOf 0, areaName = ''Uttara'', stopNumber = 1, timestamp = 4000\<rparr>]"
       "stopsOf (watchRun (restFixes [2000, 3000, 4000, 5000]) ?s1)
         = [\<lparr>location_Stop = eastOf 0, areaName = ''Uttara'', stopNumber = 1, timestamp = 4000\<rparr>]"
    by (simp_all add: restFixes_def atRest_callback watchCallback_refs rest n0
          idleState_refs stopAreaName_examples)
  have near: "nearestShop (eastOf 0) (shopsRef idleState) ?sh"
    by (simp add: nearestShop_iff idleState_refs)
  have nm: "stopAreaName (eastOf 0) (shopsRef idleState) (areasRef idleState) = ''Uttara''"
    by (simp add: idleState_refs stopAreaName_examples)
  show ?thesis
    using dwell_stop_detection[of ?s1 ?r1 "eastOf 0" "fixAt (25 / 100000) 5" 2000
            "restFixes [2000, 3000, 4000, 5000]" "eastOf 0" ?sh]
          tr r1 an n0 nl dw far ev near nm
    by (simp add: restFixes_def)
qed

section \<open>Finalizing a route\<close>

lemma toggleTracking_stop:
  assumes "isTracking s"
  shows "\<not> isTracking (toggleTracking newId today now s)"
    and "activeRoute (toggleTracking newId today now s) = activeRoute s"
    and "routes (toggleTracking newId today now s) = routes s"
    and "isSavingRoute (toggleTracking newId today now s)"
    and "routeSaveForm (toggleTracking newId today now s) = \<lparr>day_Form = [], areaName_Form = []\<rparr>"
  using assms by (simp_all add: toggleTracking_def)

lemma confirmSaveRoute_some:
  assumes "activeRoute s = Some r"
  shows "routes (confirmSaveRoute now today s) =
           r\<lparr>day := Some (day_Form (routeSaveForm s)),
             customAreaName := Some (areaName_Form (routeSaveForm s)),
             endTime := Some now, date := today, isArchived_Route := Some False\<rparr> # routes s"
    and "activeRoute (confirmSaveRoute now today s) = None"
    and "isTracking (confirmSaveRoute now today s) = isTracking s"
    and "\<not> isSavingRoute (confirmSaveRoute now today s)"
  using assms by (simp_all add: confirmSaveRoute_def Let_def)

lemma confirmSaveRoute_none: "activeRoute s = None \<Longrightarrow> confirmSaveRoute now today s = s"
  by (simp add: confirmSaveRoute_def)

lemma setRouteSaveForm_fields:
  "routeSaveForm (setRouteSaveForm d a s) = \<lparr>day_Form = d, areaName_Form = a\<rparr>"
  "activeRoute (setRouteSaveForm d a s) = activeRoute s"
  "isTracking (setRouteSaveForm d a s) = isTracking s"
  "routes (setRouteSaveForm d a s) = routes s"
  by (simp_all add: setRouteSaveForm_def)

text \<open>
  C6. Finalizing from a recording state (the stop toggle, the two labels typed into the
  save form, the form's submission) puts in front of the saved routes the active route
  with endTime set to the time of the submission, isArchived false, the two labels
  attached and its path kept; afterwards nothing is tracked and there is no active route,
  so that the next toggle starts a new recording with a path of one point. Without an
  active route the submission changes nothing.
\<close>

theorem finalize_route:
  "(isTracking s \<and> activeRoute s = Some r \<longrightarrow>
      routes (confirmSaveRoute now today
               (setRouteSaveForm dayLabel areaLabel (toggleTracking newId today0 now0 s)))
        = r\<lparr>day := Some dayLabel, customAreaName := Some areaLabel, endTime := Some now,
            date := today, isArchived_Route := Some False\<rparr> # routes s
    \<and> path (hd (routes (confirmSaveRoute now today
               (setRouteSaveForm dayLabel areaLabel (toggleTracking newId today0 now0 s)))))
        = path r
    \<and> \<not> isTracking (confirmSaveRoute now today
               (setRouteSaveForm dayLabel areaLabel (toggleTracking newId today0 now0 s)))
    \<and> activeRoute (confirmSaveRoute now today
               (setRouteSaveForm dayLabel areaLabel (toggleTracking newId today0 now0 s))) = None
    \<and> recording (toggleTracking newId1 today1 now1 (confirmSaveRoute now today
               (setRouteSaveForm dayLabel areaLabel (toggleTracking newId today0 now0 s))))
    \<and> length (pathOf (toggleTracking newId1 today1 now1 (confirmSaveRoute now today
               (setRouteSaveForm dayLabel areaLabel (toggleTracking newId today0 now0 s))))) = 1)
   \<and> (activeRoute s = None \<longrightarrow> confirmSaveRoute now today s = s)"
proof -
  let ?s1 = "toggleTracking newId today0 now0 s"
  let ?s2 = "setRouteSaveForm dayLabel areaLabel ?s1"
  let ?s3 = "confirmSaveRoute now today ?s2"
  let ?s4 = "toggleTracking newId1 today1 now1 ?s3"
  have a: "routes ?s3 = r\<lparr>day := Some dayLabel, customAreaName := Some areaLabel,
               endTime := Some now, date := today, isArchived_Route := Some False\<rparr> # routes s
         \<and> path (hd (routes ?s3)) = path r
         \<and> \<not> isTracking ?s3 \<and> activeRoute ?s3 = None
         \<and> recording ?s4 \<and> length (pathOf ?s4) = 1"
    if tr: "isTracking s" and r: "activeRoute s = Some r"
  proof -
    note t = toggleTracking_stop[OF tr, of newId today0 now0]
    have r2: "activeRoute ?s2 = Some r" using t(2) r by (simp add: setRouteSaveForm_fields)
    note c = confirmSaveRoute_some[OF r2, of now today]
    have rt: "routes ?s3 = r\<lparr>day := Some dayLabel, customAreaName := Some areaLabel,
               endTime := Some now, date := today, isArchived_Route := Some False\<rparr> # routes s"
      using c(1) t(3) by (simp add: setRouteSaveForm_fields)
    have nt: "\<not> isTracking ?s3" using c(3) t(1) by (simp add: setRouteSaveForm_fields)
    note st = toggleTracking_start[OF nt, of newId1 today1 now1]
    have "recording ?s4" using st(1,2) by (simp add: recording_def)
    moreover have "length (pathOf ?s4) = 1" using st(2) by (simp add: pathOf_def)
    ultimately show ?thesis using rt nt c(2) by simp
  qed
  have b: "confirmSaveRoute now today s = s" if "activeRoute s = None"
    using that by (rule confirmSaveRoute_none)
  show ?thesis using a b by blast
qed

theorem finalize_route_witness:
  "isTracking (toggleTracking ''r1'' ''03/11/2026'' 1000 idleState)
   \<and> activeRoute (toggleTracking ''r1'' ''03/11/2026'' 1000 idleState)
       = Some \<lparr>id_Route = ''r1'', date = ''03/11/2026'', day = None, customAreaName = None,
               areaId_Route = ''General'', path = [eastOf 0], stops = [], startTime = 1000,
               endTime = None, isArchived_Route = Some False\<rparr>
   \<and> routes (confirmSaveRoute 9000 ''03/11/2026''
               (setRouteSaveForm ''Saturday'' ''Uttara Trip''
                  (toggleTracking ''r2'' ''03/11/2026'' 8000
                     (toggleTracking ''r1'' ''03/11/2026'' 1000 idleState))))
       = [\<lparr>id_Route = ''r1'', date = ''03/11/2026'', day = Some ''Saturday'',
            customAreaName = Some ''Uttara Trip'', areaId_Route = ''General'',
            path = [eastOf 0], stops = [], startTime = 1000, endTime = Some 9000,
            isArchived_Route = Some False\<rparr>]
   \<and> \<not> isTracking (confirmSaveRoute 9000 ''03/11/2026''
               (setRouteSaveForm ''Saturday'' ''Uttara Trip''
                  (toggleTracking ''r2'' ''03/11/2026'' 8000
                     (toggleTracking ''r1'' ''03/11/2026'' 1000 idleState))))
   \<and> activeRoute (confirmSaveRoute 9000 ''03/11/2026''
               (setRouteSaveForm ''Saturday'' ''Uttara Trip''
                  (toggleTracking ''r2'' ''03/11/2026'' 8000
                     (toggleTracking ''r1'' ''03/11/2026'' 1000 idleState)))) = None
   \<and> recording (toggleTracking ''r3'' ''04/11/2026'' 10000
        (confirmSaveRoute 9000 ''03/11/2026''
               (setRouteSaveForm ''Saturday'' ''Uttara Trip''
                  (toggleTracking ''r2'' ''03/11/2026'' 8000
                     (toggleTracking ''r1'' ''03/11/2026'' 1000 idleState)))))"
proof -
  let ?s1 = "toggleTracking ''r1'' ''03/11/2026'' 1000 idleState"
  let ?r1 = "\<lparr>id_Route = ''r1'', date = ''03/11/2026'', day = None, customAreaName = None,
              areaId_Route = ''General'', path = [eastOf 0], stops = [], startTime = 1000,
              endTime = None, isArchived_Route = Some False\<rparr>"
  note idle = idleState_fields(1)
  have tr: "isTracking ?s1" using idle by (rule toggleTracking_start(1))
  have r1: "activeRoute ?s1 = Some ?r1"
    using toggleTracking_start(2)[OF idle, of "''r1''" "''03/11/2026''" 1000]
    by (simp add: idleState_fields) (simp add: idleState_def)
  have rs: "routes ?s1 = []"
    using toggleTracking_start(8)[OF idle, of "''r1''" "''03/11/2026''" 1000]
    by (simp add: idleState_def)
  show ?thesis
    using finalize_route[of ?s1 ?r1 9000 "''03/11/2026''" "''Saturday''" "''Uttara Trip''"
            "''r2''" "''03/11/2026''" 8000 "''r3''" "''04/11/2026''" 10000]
          tr r1 rs
    by simp
qed

section \<open>Range settings: properties\<close>











end
